theory Spec2Isabelle
  imports Complex_Main "HOL-Library.Sublist"
begin

section \<open>Source citations and their deduplication\<close>

text \<open>
  A source citation as \<^verbatim>\<open>tavilyService.extractSources\<close> builds it. The \<open>url\<close> field is
  optional in the model because \<^verbatim>\<open>deduplicateSources\<close> itself tests \<^verbatim>\<open>!s.url\<close>:
  \<open>None\<close> stands for a missing field and \<open>Some []\<close> for the empty string, the two
  cases JavaScript treats as falsy.
\<close>

record source =
  title :: string
  url :: "string option"
  domain :: string
  favicon :: "string option"

definition falsy_str :: "string option \<Rightarrow> bool" where
  "falsy_str s = (s = None \<or> s = Some [])"

text \<open>
  \<^verbatim>\<open>sources.filter(s => { if (!s.url || seen.has(s.url)) return false; seen.add(s.url); return true; })\<close>
  with the set \<open>seen\<close> threaded through the traversal.
\<close>

fun filter_seen :: "string set \<Rightarrow> source list \<Rightarrow> source list" where
  "filter_seen seen [] = []"
| "filter_seen seen (s # ss) =
     (case url s of
        None \<Rightarrow> filter_seen seen ss
      | Some u \<Rightarrow>
          if u = [] \<or> u \<in> seen then filter_seen seen ss
          else s # filter_seen (insert u seen) ss)"

definition deduplicateSources :: "source list \<Rightarrow> source list" where
  "deduplicateSources sources = filter_seen {} sources"

section \<open>JavaScript values read from JSON\<close>

text \<open>
  The result of \<^verbatim>\<open>JSON.parse\<close>. Numbers are carried as integers: the orchestrator only
  tests them for truthiness and passes them on to the search backend. A property that
  is absent reads as \<^verbatim>\<open>undefined\<close>, modelled by \<open>None\<close> of \<open>json option\<close>. The pair
  list of an object holds each key once, as \<^verbatim>\<open>JSON.parse\<close> leaves it.
\<close>

datatype json =
  JNull
  | JBool bool
  | JNum int
  | JStr string
  | JArr "json list"
  | JObj "(string \<times> json) list"

fun truthy :: "json option \<Rightarrow> bool" where
  "truthy None = False"
| "truthy (Some JNull) = False"
| "truthy (Some (JBool b)) = b"
| "truthy (Some (JNum n)) = (n \<noteq> 0)"
| "truthy (Some (JStr s)) = (s \<noteq> [])"
| "truthy (Some (JArr xs)) = True"
| "truthy (Some (JObj kvs)) = True"

fun get_prop :: "json \<Rightarrow> string \<Rightarrow> json option" where
  "get_prop (JObj kvs) k = map_of kvs k"
| "get_prop v k = None"

fun is_string :: "json option \<Rightarrow> bool" where
  "is_string (Some (JStr s)) = True"
| "is_string v = False"

text \<open>\<^verbatim>\<open>a || b\<close> on optional strings and on optional status numbers.\<close>

definition or_str :: "string option \<Rightarrow> string option \<Rightarrow> string option" where
  "or_str a b = (if falsy_str a then b else a)"

definition or_status :: "nat option \<Rightarrow> nat option \<Rightarrow> nat option" where
  "or_status a b = (if a = None \<or> a = Some 0 then b else a)"

text \<open>\<^verbatim>\<open>s.includes(t)\<close> and \<^verbatim>\<open>s.substring(s.indexOf('{'))\<close> for a string that holds a brace.\<close>

fun str_includes :: "string \<Rightarrow> string \<Rightarrow> bool" where
  "str_includes [] t = (t = [])"
| "str_includes (c # cs) t = (prefix t (c # cs) \<or> str_includes cs t)"

definition from_brace :: "string \<Rightarrow> string" where
  "from_brace s = dropWhile (\<lambda>c. c \<noteq> CHR ''{'') s"

fun join :: "string \<Rightarrow> string list \<Rightarrow> string" where
  "join sep [] = []"
| "join sep [x] = x"
| "join sep (x # y # ys) = x @ sep @ join sep (y # ys)"

definition nl :: string where
  "nl = [CHR 0x0A]"

section \<open>Transcript, tool calls and provider requests\<close>

text \<open>
  A tool call of an assistant message: \<^verbatim>\<open>toolCall.id\<close>, \<^verbatim>\<open>toolCall.function.name\<close> and
  \<^verbatim>\<open>toolCall.function.arguments\<close> (the raw text handed to \<^verbatim>\<open>JSON.parse\<close>).
\<close>

record tool_call =
  call_id :: string
  function_name :: string
  function_arguments :: string

text \<open>
  The message object of a completion, \<^verbatim>\<open>response.choices[0].message\<close>. Its role is
  \<^verbatim>\<open>assistant\<close> by the provider's contract; \<open>tool_calls\<close> may be absent.
\<close>

record assistant_msg =
  content :: "string option"
  tool_calls :: "tool_call list option"

datatype message =
  SystemMsg string
  | UserMsg string
  | AssistantMsg assistant_msg
  | ToolMsg string string

text \<open>\<open>ToolMsg i c\<close> is \<^verbatim>\<open>{ role: 'tool', tool_call_id: i, content: c }\<close>.\<close>

datatype tool_def = WEB_SEARCH_TOOL | BROWSER_EXTRACT_TOOL

datatype tool_choice = ChoiceAuto | ChoiceNone | ChoiceFunction string

text \<open>
  The argument of \<^verbatim>\<open>groq.chat.completions.create\<close>. \<open>None\<close> in \<open>req_tools\<close> and
  \<open>req_tool_choice\<close> is \<^verbatim>\<open>undefined\<close>: the property is not sent.
\<close>

record request =
  model :: string
  req_messages :: "message list"
  temperature :: rat
  req_tools :: "tool_def list option"
  req_tool_choice :: "tool_choice option"

definition MODEL_NAME :: string where
  "MODEL_NAME = ''meta-llama/llama-4-scout-17b-16e-instruct''"

definition MAX_AGENTIC_STEPS :: nat where
  "MAX_AGENTIC_STEPS = 6"

section \<open>Errors\<close>

text \<open>
  What the catch block reads of a failed completion: \<^verbatim>\<open>apiError.status\<close>,
  \<^verbatim>\<open>apiError.response?.status\<close>, \<^verbatim>\<open>apiError.error\<close>, \<^verbatim>\<open>apiError.body?.error\<close>,
  \<^verbatim>\<open>apiError.code\<close> and \<^verbatim>\<open>apiError.message\<close>. The error body is typed by the
  provider's contract: \<^verbatim>\<open>code\<close> and \<^verbatim>\<open>failed_generation\<close> are text when present.
\<close>

record error_body =
  body_code :: "string option"
  failed_generation :: "string option"

record api_error =
  err_status :: "nat option"
  err_response_status :: "nat option"
  err_error :: "error_body option"
  err_body_error :: "error_body option"
  err_code :: "string option"
  err_message :: "string option"

text \<open>
  What reaches the outer catch of \<^verbatim>\<open>chat\<close>: a provider error, or the \<^verbatim>\<open>TypeError\<close>
  JavaScript raises when a tool call destructures \<^verbatim>\<open>null\<close> or reads \<^verbatim>\<open>urls.length\<close> and
  \<^verbatim>\<open>urls.join\<close> of a value that is not an array.
\<close>

datatype exn = ApiError api_error | TypeError

record failure =
  failure_error :: string
  failure_code :: string

definition status_of :: "exn \<Rightarrow> nat option" where
  "status_of e = (case e of
     ApiError a \<Rightarrow> or_status (err_status a) (err_response_status a)
   | TypeError \<Rightarrow> None)"

definition handleError :: "exn \<Rightarrow> failure" where
  "handleError e =
     (let status = status_of e in
      if status = Some 429 then
        \<lparr>failure_error = ''Rate limit exceeded.'', failure_code = ''RATE_LIMIT''\<rparr>
      else if status = Some 401 \<or> status = Some 403 then
        \<lparr>failure_error = ''Auth error.'', failure_code = ''AUTH_ERROR''\<rparr>
      else
        \<lparr>failure_error = ''AI service temporarily unavailable.'', failure_code = ''GROQ_ERROR''\<rparr>)"

section \<open>The search and extraction service\<close>

record search_args =
  query :: "json option"
  topic :: json
  max_results :: json
  search_depth :: json

record search_payload =
  answer :: "string option"
  results :: string
  payload_sources :: "source list"

record extract_item =
  item_url :: string
  raw_content :: string
  item_content :: string

record http_error =
  http_status :: "nat option"
  http_code :: "string option"

text \<open>
  The two shapes \<^verbatim>\<open>tavilyService.search\<close> returns: \<^verbatim>\<open>{ success: true, answer, results, sources }\<close>
  and \<^verbatim>\<open>{ success: false, error, code }\<close>; likewise for \<^verbatim>\<open>extract\<close>.
\<close>

datatype search_result = SearchSuccess search_payload | SearchFailure string string

datatype extract_result = ExtractSuccess "extract_item list" | ExtractFailure string string

text \<open>
  The interaction with the outside world. Every request that leaves the process is
  appended to a trace; the answer of the outside world is a function of the trace so
  far and of the request, so an environment may answer the same request differently
  at different times.
\<close>

datatype io_event =
  ProviderCall request
  | SearchPost search_args
  | ExtractPost "json list"

text \<open>
  The environment of one run: \<^verbatim>\<open>JSON.parse\<close>, the API key, the prompt constants and the
  clock strings of the system prompt, the completion provider
  (\<^verbatim>\<open>groq.chat.completions.create\<close>, \<open>Inl\<close> when it throws), and the two HTTP calls of the
  search service with the formatting of their payload (the body of the \<^verbatim>\<open>try\<close> blocks of
  \<^verbatim>\<open>search\<close> and \<^verbatim>\<open>extract\<close>, \<open>Inl\<close> when anything in it throws).
\<close>

record env =
  JSON_parse :: "string \<Rightarrow> json option"
  TAVILY_API_KEY :: "string option"
  SYSTEM_PROMPT :: string
  DEEP_RESEARCH_PROMPT :: string
  dateStr :: string
  timeStr :: string
  completions_create :: "io_event list \<Rightarrow> request \<Rightarrow> api_error + assistant_msg"
  search_post :: "io_event list \<Rightarrow> search_args \<Rightarrow> http_error + search_payload"
  extract_post :: "io_event list \<Rightarrow> json list \<Rightarrow> http_error + extract_item list"

definition tavily_handleError :: "http_error \<Rightarrow> string \<times> string" where
  "tavily_handleError e =
     (if http_status e = Some 429 then
        (''Search rate limit exceeded. Please try again in a few minutes.'', ''RATE_LIMIT'')
      else if http_status e = Some 401 \<or> http_status e = Some 403 then
        (''Tavily API key is invalid or expired.'', ''AUTH_ERROR'')
      else if http_code e = Some ''ECONNABORTED'' \<or> http_code e = Some ''ETIMEDOUT'' then
        (''Search request timed out. Please try again.'', ''TIMEOUT'')
      else (''Search service temporarily unavailable.'', ''TAVILY_ERROR''))"

definition tavily_search :: "env \<Rightarrow> io_event list \<Rightarrow> search_args \<Rightarrow> search_result \<times> io_event list" where
  "tavily_search env tr options =
     (if \<not> truthy (query options) \<or> \<not> is_string (query options) then
        (SearchFailure ''Query is required and must be a string.'' ''INVALID_QUERY'', tr)
      else if falsy_str (TAVILY_API_KEY env) then
        (SearchFailure ''Search service configuration error.'' ''CONFIG_ERROR'', tr)
      else
        (case search_post env tr options of
           Inr payload \<Rightarrow> (SearchSuccess payload, tr @ [SearchPost options])
         | Inl e \<Rightarrow>
             (SearchFailure (fst (tavily_handleError e)) (snd (tavily_handleError e)),
              tr @ [SearchPost options])))"

definition tavily_extract :: "env \<Rightarrow> io_event list \<Rightarrow> json list \<Rightarrow> extract_result \<times> io_event list" where
  "tavily_extract env tr us =
     (if us = [] then (ExtractFailure ''URLs array is required.'' ''INVALID_URLS'', tr)
      else if falsy_str (TAVILY_API_KEY env) then
        (ExtractFailure ''Extraction service configuration error.'' ''CONFIG_ERROR'', tr)
      else
        (case extract_post env tr us of
           Inr rs \<Rightarrow> (ExtractSuccess rs, tr @ [ExtractPost us])
         | Inl e \<Rightarrow>
             (ExtractFailure (fst (tavily_handleError e)) (snd (tavily_handleError e)),
              tr @ [ExtractPost us])))"

section \<open>The orchestrator\<close>

text \<open>
  \<^verbatim>\<open>GroqService.chat\<close> of \<^verbatim>\<open>services/groqService.js\<close>. Logging and the progress events are
  not part of the model: \<^verbatim>\<open>emit\<close> catches what the callback throws and returns nothing,
  so the value \<^verbatim>\<open>chat\<close> returns and the requests it makes do not depend on them.
\<close>

text \<open>
  The third argument of \<^verbatim>\<open>chat\<close>: a boolean (the legacy form) or an options object
  whose three properties may each be absent.
\<close>

record options =
  opt_forceSearch :: "bool option"
  opt_context :: "string option"
  opt_isDeepResearch :: "bool option"

datatype options_arg = LegacyForceSearch bool | OptionsObject options

definition normalize_options :: "options_arg \<Rightarrow> options" where
  "normalize_options optionsOrForceSearch =
     (case optionsOrForceSearch of
        LegacyForceSearch b \<Rightarrow>
          \<lparr>opt_forceSearch = Some b, opt_context = None, opt_isDeepResearch = None\<rparr>
      | OptionsObject options \<Rightarrow> options)"

text \<open>
  \<^verbatim>\<open>const { forceSearch = false, context = '', isDeepResearch = false } = options\<close>, and the
  locals computed from them before the loop.
\<close>

definition forceSearch :: "options \<Rightarrow> bool" where
  "forceSearch options = (case opt_forceSearch options of Some b \<Rightarrow> b | None \<Rightarrow> False)"

definition context_str :: "options \<Rightarrow> string" where
  "context_str options = (case opt_context options of Some c \<Rightarrow> c | None \<Rightarrow> [])"

definition isDeepResearch :: "options \<Rightarrow> bool" where
  "isDeepResearch options = (case opt_isDeepResearch options of Some b \<Rightarrow> b | None \<Rightarrow> False)"

definition tools :: "options \<Rightarrow> tool_def list" where
  "tools options =
     (if context_str options \<noteq> [] then []
      else [WEB_SEARCH_TOOL] @ (if isDeepResearch options then [BROWSER_EXTRACT_TOOL] else []))"

definition toolChoice :: "options \<Rightarrow> tool_choice" where
  "toolChoice options =
     (if context_str options \<noteq> [] then ChoiceNone
      else if forceSearch options then ChoiceFunction ''web_search''
      else ChoiceAuto)"

definition maxSteps :: "options \<Rightarrow> nat" where
  "maxSteps options = (if isDeepResearch options then 10 else MAX_AGENTIC_STEPS)"

definition finalSystemPrompt :: "env \<Rightarrow> options \<Rightarrow> string" where
  "finalSystemPrompt env options =
     SYSTEM_PROMPT env @ nl @ nl @ ''## CURRENT REAL-WORLD CONTEXT'' @ nl
       @ ''- Current Date: '' @ dateStr env @ nl
       @ ''- Current Time: '' @ timeStr env @ nl @ nl
       @ ''You MUST use this time context.''
       @ (if isDeepResearch options then nl @ nl @ DEEP_RESEARCH_PROMPT env else [])
       @ (if context_str options \<noteq> [] then
            nl @ nl @ ''RELEVANT CONTEXT FROM DOCUMENTS:'' @ nl @ context_str options
          else [])"

text \<open>
  A step of the list returned to the caller. The id \<^verbatim>\<open>step-${iteration}-${totalSearchCount}\<close> is
  kept as its two numbers; the clock value in the id of a reading step and the
  timestamps are left out. A step is \<^verbatim>\<open>running\<close> while its call is in flight; the list
  holds it with the status it has once the call has returned.
\<close>

datatype step_type = Searching | Reading

datatype step_status = Running | Done | Failed

datatype step_id = SearchStepId nat nat | ExtractStepId nat

record step =
  step_id :: step_id
  step_type :: step_type
  step_query :: "json option"
  step_topic :: "json option"
  depth :: "json option"
  urls :: "json list option"
  status :: step_status
  resultCount :: "nat option"

text \<open>The locals of \<^verbatim>\<open>chat\<close> that the loop changes, and the trace of the outside calls.\<close>

record run_state =
  messages :: "message list"
  iteration :: nat
  lastAssistantMessage :: "assistant_msg option"
  totalSearchCount :: nat
  searchSteps :: "step list"
  allSources :: "source list"
  trace :: "io_event list"

definition callOptions :: "options \<Rightarrow> run_state \<Rightarrow> request" where
  "callOptions options st =
     \<lparr>model = MODEL_NAME,
      req_messages = messages st,
      temperature = (if isDeepResearch options then 4 / 10 else 7 / 10),
      req_tools = (if tools options \<noteq> [] then Some (tools options) else None),
      req_tool_choice =
        (if tools options \<noteq> [] then
           Some (if iteration st = 1 \<and> forceSearch options then toolChoice options else ChoiceAuto)
         else None)\<rparr>"

text \<open>The completion requests made without tools: \<^verbatim>\<open>{ model, messages, temperature }\<close>.\<close>

definition plain_request :: "message list \<Rightarrow> rat \<Rightarrow> request" where
  "plain_request ms t =
     \<lparr>model = MODEL_NAME, req_messages = ms, temperature = t,
      req_tools = None, req_tool_choice = None\<rparr>"

definition continuation_msg :: message where
  "continuation_msg = UserMsg
     (''The research so far is too shallow or repetitive. Please identify at least 3 NEW, ''
      @ ''distinct angles, technical details, or specific data points you haven'' @ [CHR 0x27]
      @ ''t investigated yet. Broaden the search to completely new sources to ensure a ''
      @ ''truly comprehensive report.'')"

subsection \<open>Recovery of a rejected tool invocation\<close>

text \<open>
  The value of \<^verbatim>\<open>finalFailedText\<close> in the branch for status 400 with
  \<^verbatim>\<open>tool_use_failed\<close>: the error body's \<^verbatim>\<open>failed_generation\<close>, or when that is falsy and
  the message holds a brace, the \<^verbatim>\<open>error.failed_generation\<close> of the JSON text that starts
  at the brace. A parse error and the \<^verbatim>\<open>TypeError\<close> of reading \<^verbatim>\<open>null.error\<close> are
  swallowed by the inner \<^verbatim>\<open>try\<close>. As in the error body, \<^verbatim>\<open>failed_generation\<close> is a text
  field of the provider: a value of another JSON type is read as absent.
\<close>

definition errorBody :: "api_error \<Rightarrow> error_body" where
  "errorBody apiError =
     (case err_error apiError of
        Some b \<Rightarrow> b
      | None \<Rightarrow>
          (case err_body_error apiError of
             Some b \<Rightarrow> b
           | None \<Rightarrow> \<lparr>body_code = None, failed_generation = None\<rparr>))"

definition message_includes :: "api_error \<Rightarrow> string \<Rightarrow> bool" where
  "message_includes apiError t =
     (case err_message apiError of Some m \<Rightarrow> str_includes m t | None \<Rightarrow> False)"

definition is_tool_use_failed :: "api_error \<Rightarrow> bool" where
  "is_tool_use_failed apiError =
     (or_status (err_status apiError) (err_response_status apiError) = Some 400
      \<and> (or_str (body_code (errorBody apiError)) (err_code apiError) = Some ''tool_use_failed''
           \<or> message_includes apiError ''tool_use_failed''))"

definition finalFailedText :: "env \<Rightarrow> api_error \<Rightarrow> string option" where
  "finalFailedText env apiError =
     (let failedText = failed_generation (errorBody apiError) in
      case err_message apiError of
        None \<Rightarrow> failedText
      | Some msg \<Rightarrow>
          if falsy_str failedText \<and> str_includes msg ''{'' then
            (case JSON_parse env (from_brace msg) of
               None \<Rightarrow> failedText
             | Some JNull \<Rightarrow> failedText
             | Some json \<Rightarrow>
                 (case get_prop json ''error'' of
                    None \<Rightarrow> None
                  | Some JNull \<Rightarrow> None
                  | Some e \<Rightarrow>
                      (case get_prop e ''failed_generation'' of
                         Some (JStr t) \<Rightarrow> Some t
                       | _ \<Rightarrow> None)))
          else failedText)"

definition salvaged_text :: "env \<Rightarrow> api_error \<Rightarrow> string option" where
  "salvaged_text env apiError =
     (if is_tool_use_failed apiError then
        (case finalFailedText env apiError of
           Some t \<Rightarrow> if t \<noteq> [] \<and> length t > 20 then Some t else None
         | None \<Rightarrow> None)
      else None)"

subsection \<open>Tool calls\<close>

text \<open>\<^verbatim>\<open>v || d\<close> for a property \<open>v\<close> of the parsed arguments.\<close>

definition or_json :: "json option \<Rightarrow> json \<Rightarrow> json" where
  "or_json v d = (case v of Some x \<Rightarrow> if truthy v then x else d | None \<Rightarrow> d)"

text \<open>
  The branch \<^verbatim>\<open>functionName === 'web_search'\<close>. Destructuring \<^verbatim>\<open>null\<close> throws; any other
  parsed value destructures, absent properties reading as \<^verbatim>\<open>undefined\<close>. The counter is
  incremented and the step pushed before the search runs; the step's status and
  result count are set when it returns.
\<close>

definition web_search ::
  "env \<Rightarrow> options \<Rightarrow> run_state \<Rightarrow> tool_call \<Rightarrow> json \<Rightarrow> (exn \<times> io_event list) + (run_state \<times> message)" where
  "web_search env options st toolCall args =
     (if args = JNull then Inl (TypeError, trace st)
      else
        (let q = get_prop args ''query'';
             t = (case get_prop args ''topic'' of Some v \<Rightarrow> v | None \<Rightarrow> JStr ''general'');
             d = (if isDeepResearch options then JStr ''advanced''
                  else or_json (get_prop args ''search_depth'') (JStr ''basic''));
             m = (if isDeepResearch options then JNum 10
                  else or_json (get_prop args ''max_results'') (JNum 5));
             n = totalSearchCount st + 1;
             searched = tavily_search env (trace st)
                 \<lparr>query = q, topic = t, max_results = m, search_depth = d\<rparr>;
             searchResult = fst searched;
             step = \<lparr>step_id = SearchStepId (iteration st) n, step_type = Searching,
                     step_query = q, step_topic = Some t, depth = Some d, urls = None,
                     status = (case searchResult of
                                 SearchSuccess p \<Rightarrow> Done | SearchFailure e c \<Rightarrow> Failed),
                     resultCount = Some (case searchResult of
                                 SearchSuccess p \<Rightarrow> length (payload_sources p)
                               | SearchFailure e c \<Rightarrow> 0)\<rparr>
         in Inr (st\<lparr>totalSearchCount := n,
                     searchSteps := searchSteps st @ [step],
                     allSources := allSources st @
                       (case searchResult of
                          SearchSuccess p \<Rightarrow> payload_sources p | SearchFailure e c \<Rightarrow> []),
                     trace := snd searched\<rparr>,
                 ToolMsg (call_id toolCall)
                   (case searchResult of
                      SearchSuccess p \<Rightarrow> results p
                    | SearchFailure e c \<Rightarrow> ''Search failed: '' @ e))))"

text \<open>
  The branch \<^verbatim>\<open>functionName === 'browser_extract'\<close>. \<^verbatim>\<open>urls.length\<close> and \<^verbatim>\<open>urls.join\<close> throw
  unless \<^verbatim>\<open>urls\<close> is an array. The counter and the source list are not touched.
\<close>

definition format_item :: "extract_item \<Rightarrow> string" where
  "format_item r =
     ''URL: '' @ item_url r @ nl @ ''CONTENT: ''
       @ (if raw_content r \<noteq> [] then raw_content r else item_content r)"

definition browser_extract ::
  "env \<Rightarrow> options \<Rightarrow> run_state \<Rightarrow> tool_call \<Rightarrow> json \<Rightarrow> (exn \<times> io_event list) + (run_state \<times> message)" where
  "browser_extract env options st toolCall args =
     (if args = JNull then Inl (TypeError, trace st)
      else
        (case get_prop args ''urls'' of
           Some (JArr us) \<Rightarrow>
             (let extracted = tavily_extract env (trace st) us;
                  extractResult = fst extracted;
                  step = \<lparr>step_id = ExtractStepId (iteration st), step_type = Reading,
                          step_query = None, step_topic = None, depth = None, urls = Some us,
                          status = (case extractResult of
                                      ExtractSuccess rs \<Rightarrow> Done | ExtractFailure e c \<Rightarrow> Failed),
                          resultCount = None\<rparr>
              in Inr (st\<lparr>searchSteps := searchSteps st @ [step], trace := snd extracted\<rparr>,
                      ToolMsg (call_id toolCall)
                        (case extractResult of
                           ExtractSuccess rs \<Rightarrow>
                             ''Extracted Content:'' @ nl
                               @ join (nl @ nl @ ''---'' @ nl @ nl) (map format_item rs)
                         | ExtractFailure e c \<Rightarrow> ''Extraction failed: '' @ e)))
         | _ \<Rightarrow> Inl (TypeError, trace st)))"

text \<open>The callback mapped over \<^verbatim>\<open>assistantMsg.tool_calls\<close>.\<close>

definition processToolCall ::
  "env \<Rightarrow> options \<Rightarrow> run_state \<Rightarrow> tool_call \<Rightarrow> (exn \<times> io_event list) + (run_state \<times> message)" where
  "processToolCall env options st toolCall =
     (case JSON_parse env (function_arguments toolCall) of
        None \<Rightarrow> Inr (st, ToolMsg (call_id toolCall) ''Invalid JSON arguments.'')
      | Some args \<Rightarrow>
          if function_name toolCall = ''web_search'' then web_search env options st toolCall args
          else if function_name toolCall = ''browser_extract'' then
            browser_extract env options st toolCall args
          else Inr (st, ToolMsg (call_id toolCall) ''Unknown tool.''))"

text \<open>
  \<^verbatim>\<open>Promise.all\<close> over the calls of one round. In the code the counter increments, the
  step pushes and the requests to the search service happen in the order of the calls,
  before any call is awaited, and the result messages come back in that order; the
  sources of a search are pushed when that search completes. The model runs the calls
  one after the other, which is the schedule where they complete in the order of the
  calls. It differs from the code in two places that no property below reads: the
  order of \<open>allSources\<close> when searches complete out of order, and the trace of a round
  in which a call throws, where the code has already started every later call and the
  model stops at the first throwing one. The value \<^verbatim>\<open>chat\<close> returns for such a round is
  the same: the failure of a \<^verbatim>\<open>TypeError\<close>.
\<close>

fun processToolCalls ::
  "env \<Rightarrow> options \<Rightarrow> run_state \<Rightarrow> tool_call list \<Rightarrow> (exn \<times> io_event list) + (run_state \<times> message list)" where
  "processToolCalls env options st [] = Inr (st, [])"
| "processToolCalls env options st (toolCall # rest) =
     (case processToolCall env options st toolCall of
        Inl e \<Rightarrow> Inl e
      | Inr (st1, r) \<Rightarrow>
          (case processToolCalls env options st1 rest of
             Inl e \<Rightarrow> Inl e
           | Inr (st2, rs) \<Rightarrow> Inr (st2, r # rs)))"

subsection \<open>The agentic loop\<close>

text \<open>
  One pass through the body of \<^verbatim>\<open>while (iteration < maxSteps)\<close>, after \<^verbatim>\<open>iteration++\<close>:
  it ends in \<^verbatim>\<open>continue\<close> or the end of the body, in \<^verbatim>\<open>break\<close>, or in a \<^verbatim>\<open>throw\<close> that
  leaves the loop for the outer catch.
\<close>

datatype loop_outcome =
  Continue run_state
  | Break run_state
  | Throw exn "io_event list"

definition loop_body :: "env \<Rightarrow> options \<Rightarrow> run_state \<Rightarrow> loop_outcome" where
  "loop_body env options st =
     (let tr = trace st @ [ProviderCall (callOptions options st)] in
      case completions_create env (trace st) (callOptions options st) of
        Inl apiError \<Rightarrow>
          (case salvaged_text env apiError of
             Some t \<Rightarrow>
               Break (st\<lparr>lastAssistantMessage := Some \<lparr>content = Some t, tool_calls = None\<rparr>,
                         trace := tr\<rparr>)
           | None \<Rightarrow>
               if totalSearchCount st > 0 then
                 (case completions_create env tr (plain_request (messages st) (7 / 10)) of
                    Inr synth \<Rightarrow>
                      Break (st\<lparr>lastAssistantMessage := Some synth,
                                trace := tr @ [ProviderCall (plain_request (messages st) (7 / 10))]\<rparr>)
                  | Inl e \<Rightarrow>
                      Throw (ApiError apiError)
                        (tr @ [ProviderCall (plain_request (messages st) (7 / 10))]))
               else Throw (ApiError apiError) tr)
      | Inr assistantMsg \<Rightarrow>
          (case tool_calls assistantMsg of
             Some (toolCall # rest) \<Rightarrow>
               (case processToolCalls env options
                       (st\<lparr>messages := messages st @ [AssistantMsg assistantMsg], trace := tr\<rparr>)
                       (toolCall # rest) of
                  Inl (e, tr') \<Rightarrow> Throw e tr'
                | Inr (st', toolResults) \<Rightarrow>
                    Continue (st'\<lparr>messages := messages st' @ toolResults\<rparr>))
           | _ \<Rightarrow>
               if isDeepResearch options \<and> totalSearchCount st < 4
                  \<and> iteration st < maxSteps options then
                 Continue (st\<lparr>messages := messages st @ [AssistantMsg assistantMsg, continuation_msg],
                              trace := tr\<rparr>)
               else Break (st\<lparr>lastAssistantMessage := Some assistantMsg, trace := tr\<rparr>)))"

lemma processToolCall_iteration:
  "processToolCall env options st toolCall = Inr (st', r) \<Longrightarrow> iteration st' = iteration st"
  by (auto simp: processToolCall_def web_search_def browser_extract_def Let_def
      split: option.splits if_splits json.splits)

lemma processToolCalls_iteration:
  "processToolCalls env options st calls = Inr (st', rs) \<Longrightarrow> iteration st' = iteration st"
proof (induction calls arbitrary: st st' rs)
  case Nil
  then show ?case by simp
next
  case (Cons c calls)
  from Cons.prems obtain st1 r rs1 where
    one: "processToolCall env options st c = Inr (st1, r)" and
    more: "processToolCalls env options st1 calls = Inr (st', rs1)"
    by (auto split: sum.splits prod.splits)
  from Cons.IH [OF more] processToolCall_iteration [OF one] show ?case by simp
qed

lemma loop_body_iteration:
  "loop_body env options st = Continue st' \<Longrightarrow> iteration st' = iteration st"
  by (auto simp: loop_body_def Let_def simp del: processToolCalls.simps
      split: sum.splits option.splits list.splits if_splits prod.splits
      dest!: processToolCalls_iteration)

function agentic_loop :: "env \<Rightarrow> options \<Rightarrow> run_state \<Rightarrow> (exn \<times> io_event list) + run_state" where
  "agentic_loop env options st =
     (if iteration st < maxSteps options then
        (case loop_body env options (st\<lparr>iteration := iteration st + 1\<rparr>) of
           Continue st' \<Rightarrow> agentic_loop env options st'
         | Break st' \<Rightarrow> Inr st'
         | Throw e tr \<Rightarrow> Inl (e, tr))
      else Inr st)"
  by pat_completeness auto
termination
proof (relation "measure (\<lambda>(env, options, st). maxSteps options - iteration st)")
  show "wf (measure (\<lambda>(env, options, st). maxSteps options - iteration st))"
    by simp
next
  fix env :: env and options :: options and st st' :: run_state
  assume "iteration st < maxSteps options"
    and "loop_body env options (st\<lparr>iteration := iteration st + 1\<rparr>) = Continue st'"
  then show "((env, options, st'), (env, options, st))
      \<in> measure (\<lambda>(env, options, st). maxSteps options - iteration st)"
    using loop_body_iteration [of env options "st\<lparr>iteration := iteration st + 1\<rparr>" st']
    by simp
qed

declare agentic_loop.simps [simp del]

subsection \<open>The entry point\<close>

definition initial_state :: "env \<Rightarrow> string \<Rightarrow> message list \<Rightarrow> options \<Rightarrow> run_state" where
  "initial_state env message conversationHistory options =
     \<lparr>messages = [SystemMsg (finalSystemPrompt env options)] @ conversationHistory @ [UserMsg message],
      iteration = 0,
      lastAssistantMessage = None,
      totalSearchCount = 0,
      searchSteps = [],
      allSources = [],
      trace = []\<rparr>"

text \<open>
  The \<^verbatim>\<open>try\<close> block of \<^verbatim>\<open>chat\<close> up to the final state: the loop, then the closing
  completion request when the loop left no assistant message.
\<close>

definition chat_try ::
  "env \<Rightarrow> string \<Rightarrow> message list \<Rightarrow> options \<Rightarrow> (exn \<times> io_event list) + run_state" where
  "chat_try env message conversationHistory options =
     (case agentic_loop env options (initial_state env message conversationHistory options) of
        Inl e \<Rightarrow> Inl e
      | Inr st \<Rightarrow>
          (case lastAssistantMessage st of
             Some m \<Rightarrow> Inr st
           | None \<Rightarrow>
               (case completions_create env (trace st) (plain_request (messages st) (5 / 10)) of
                  Inr finalCall \<Rightarrow>
                    Inr (st\<lparr>lastAssistantMessage := Some finalCall,
                            trace := trace st @ [ProviderCall (plain_request (messages st) (5 / 10))]\<rparr>)
                | Inl e \<Rightarrow>
                    Inl (ApiError e,
                         trace st @ [ProviderCall (plain_request (messages st) (5 / 10))]))))"

record chat_result =
  response :: "string option"
  searchPerformed :: bool
  sources :: "source list"
  result_searchSteps :: "step list"
  totalSteps :: nat
  totalSearches :: nat

definition chat ::
  "env \<Rightarrow> string \<Rightarrow> message list \<Rightarrow> options_arg \<Rightarrow> failure + chat_result" where
  "chat env message conversationHistory optionsOrForceSearch =
     (let options = normalize_options optionsOrForceSearch in
      case chat_try env message conversationHistory options of
        Inl (e, tr) \<Rightarrow> Inl (handleError e)
      | Inr st \<Rightarrow>
          (case lastAssistantMessage st of
             None \<Rightarrow> Inl (handleError TypeError)
           | Some m \<Rightarrow>
               Inr \<lparr>response = content m,
                    searchPerformed = (totalSearchCount st > 0),
                    sources = deduplicateSources (allSources st),
                    result_searchSteps = searchSteps st,
                    totalSteps = iteration st,
                    totalSearches = totalSearchCount st\<rparr>))"

section \<open>Vocabulary of the properties\<close>

text \<open>
  A call that the search counter counts: a \<^verbatim>\<open>web_search\<close> call whose arguments parsed.
  \<open>web_search_calls\<close> counts them over the assistant messages of a transcript.
\<close>

definition counted_call :: "env \<Rightarrow> tool_call \<Rightarrow> bool" where
  "counted_call env toolCall =
     (function_name toolCall = ''web_search''
      \<and> JSON_parse env (function_arguments toolCall) \<noteq> None)"

fun web_search_calls :: "env \<Rightarrow> message list \<Rightarrow> nat" where
  "web_search_calls env [] = 0"
| "web_search_calls env (AssistantMsg m # ms) =
     (case tool_calls m of Some calls \<Rightarrow> length (filter (counted_call env) calls) | None \<Rightarrow> 0)
       + web_search_calls env ms"
| "web_search_calls env (m # ms) = web_search_calls env ms"

fun is_provider_call :: "io_event \<Rightarrow> bool" where
  "is_provider_call (ProviderCall r) = True"
| "is_provider_call e = False"

fun is_tool_msg :: "message \<Rightarrow> bool" where
  "is_tool_msg (ToolMsg i c) = True"
| "is_tool_msg m = False"

definition tool_free :: "assistant_msg \<Rightarrow> bool" where
  "tool_free m = (tool_calls m = None \<or> tool_calls m = Some [])"

fun is_tool_free_reply :: "message \<Rightarrow> bool" where
  "is_tool_free_reply (AssistantMsg m) = tool_free m"
| "is_tool_free_reply m = False"

definition no_provider_calls :: "io_event list \<Rightarrow> bool" where
  "no_provider_calls evs = (filter is_provider_call evs = [])"

text \<open>
  The first request of a run: the call options of iteration 1 over the initial
  transcript.
\<close>

definition first_request :: "env \<Rightarrow> string \<Rightarrow> message list \<Rightarrow> options \<Rightarrow> request" where
  "first_request env message conversationHistory options =
     callOptions options ((initial_state env message conversationHistory options)\<lparr>iteration := 1\<rparr>)"

text \<open>The trace a run leaves, whether it ends in a state or in the outer catch.\<close>

fun trace_of :: "(exn \<times> io_event list) + run_state \<Rightarrow> io_event list" where
  "trace_of (Inl (e, tr)) = tr"
| "trace_of (Inr st) = trace st"

text \<open>
  The state in which the loop is re-entered after a forced continuation: the reply and
  the synthetic user instruction are appended, the request is on the trace.
\<close>

definition forced_state :: "options \<Rightarrow> run_state \<Rightarrow> assistant_msg \<Rightarrow> run_state" where
  "forced_state options st m =
     st\<lparr>iteration := iteration st + 1,
        messages := messages st @ [AssistantMsg m, continuation_msg],
        trace := trace st @ [ProviderCall (callOptions options (st\<lparr>iteration := iteration st + 1\<rparr>))]\<rparr>"

text \<open>A trace event that offers no tools: not a provider request, or one without
  \<^verbatim>\<open>tools\<close> and \<^verbatim>\<open>tool_choice\<close>.\<close>

fun tool_less :: "io_event \<Rightarrow> bool" where
  "tool_less (ProviderCall r) = (req_tools r = None \<and> req_tool_choice r = None)"
| "tool_less e = True"

text \<open>A state in which no tool has run: only provider requests are on the trace.\<close>

definition untouched :: "run_state \<Rightarrow> bool" where
  "untouched s = (totalSearchCount s = 0 \<and> searchSteps s = [] \<and> allSources s = []
     \<and> list_all is_provider_call (trace s))"

text \<open>The tool-result message for arguments that do not parse.\<close>

definition invalid_json_msg :: "tool_call \<Rightarrow> message" where
  "invalid_json_msg toolCall = ToolMsg (call_id toolCall) ''Invalid JSON arguments.''"

text \<open>The request of a trace event, when it is a provider request.\<close>

fun request_of :: "io_event \<Rightarrow> request option" where
  "request_of (ProviderCall r) = Some r"
| "request_of e = None"

section \<open>A scripted environment for the examples\<close>

text \<open>
  A small environment on which the properties below are evaluated: a parser that knows
  three argument texts and rejects every other (it agrees with \<^verbatim>\<open>JSON.parse\<close> on the four
  texts the examples use), a search service that finds one page, and providers that
  answer by the number of requests they have seen.
\<close>

definition example_parse :: "string \<Rightarrow> json option" where
  \<open>example_parse s =
     (if s = ''{"query":"isabelle"}'' then Some (JObj [(''query'', JStr ''isabelle'')])
      else if s = ''{"urls":["https://a.example/x"]}'' then
        Some (JObj [(''urls'', JArr [JStr ''https://a.example/x''])])
      else if s = ''null'' then Some JNull
      else None)\<close>

definition provider_calls :: "io_event list \<Rightarrow> nat" where
  "provider_calls tr = length (filter is_provider_call tr)"

definition example_source :: source where
  "example_source = \<lparr>title = ''A'', url = Some ''https://a.example/x'', domain = ''a.example'',
     favicon = None\<rparr>"

definition example_env ::
  "string option \<Rightarrow> (io_event list \<Rightarrow> request \<Rightarrow> api_error + assistant_msg) \<Rightarrow> env" where
  "example_env key provider =
     \<lparr>JSON_parse = example_parse, TAVILY_API_KEY = key,
      SYSTEM_PROMPT = ''You are an expert AI assistant.'',
      DEEP_RESEARCH_PROMPT = ''DEEP RESEARCH PROTOCOL'',
      dateStr = ''Monday, November 2, 2026'', timeStr = ''09:00 AM'',
      completions_create = provider,
      search_post = (\<lambda>tr a. Inr \<lparr>answer = None, results = ''Title: A'',
         payload_sources = [example_source]\<rparr>),
      extract_post = (\<lambda>tr us. Inr [\<lparr>item_url = ''https://a.example/x'',
         raw_content = ''full text'', item_content = []\<rparr>])\<rparr>"

definition answer_msg :: assistant_msg where
  "answer_msg = \<lparr>content = Some ''Four.'', tool_calls = None\<rparr>"

definition search_call :: tool_call where
  \<open>search_call = \<lparr>call_id = ''call_1'', function_name = ''web_search'',
     function_arguments = ''{"query":"isabelle"}''\<rparr>\<close>

definition broken_call :: tool_call where
  \<open>broken_call = \<lparr>call_id = ''call_1'', function_name = ''web_search'',
     function_arguments = ''{"query":''\<rparr>\<close>

definition extract_call :: tool_call where
  \<open>extract_call = \<lparr>call_id = ''call_2'', function_name = ''browser_extract'',
     function_arguments = ''{"urls":["https://a.example/x"]}''\<rparr>\<close>

definition calls_msg :: "tool_call list \<Rightarrow> assistant_msg" where
  "calls_msg calls = \<lparr>content = None, tool_calls = Some calls\<rparr>"

definition server_error :: "nat \<Rightarrow> api_error" where
  "server_error n = \<lparr>err_status = Some n, err_response_status = None, err_error = None,
     err_body_error = None, err_code = None, err_message = Some ''request failed''\<rparr>"

definition always_answer :: "io_event list \<Rightarrow> request \<Rightarrow> api_error + assistant_msg" where
  "always_answer tr req = Inr answer_msg"

definition always_fail :: "nat \<Rightarrow> io_event list \<Rightarrow> request \<Rightarrow> api_error + assistant_msg" where
  "always_fail n tr req = Inl (server_error n)"

text \<open>
  The error of a rejected tool invocation: status 400, code \<^verbatim>\<open>tool_use_failed\<close>, and the
  text the model had generated.
\<close>

definition rejected_tool_use :: "string \<Rightarrow> api_error" where
  "rejected_tool_use t = \<lparr>err_status = Some 400, err_response_status = None,
     err_error = Some \<lparr>body_code = Some ''tool_use_failed'', failed_generation = Some t\<rparr>,
     err_body_error = None, err_code = None, err_message = Some ''tool call validation failed''\<rparr>"

definition always_reject :: "string \<Rightarrow> io_event list \<Rightarrow> request \<Rightarrow> api_error + assistant_msg" where
  "always_reject t tr req = Inl (rejected_tool_use t)"

text \<open>One round of the given tool calls, then an answer.\<close>

definition calls_then_answer ::
  "tool_call list \<Rightarrow> io_event list \<Rightarrow> request \<Rightarrow> api_error + assistant_msg" where
  "calls_then_answer calls tr req =
     (if provider_calls tr = 0 then Inr (calls_msg calls) else Inr answer_msg)"

text \<open>An answer, then one round of the given tool calls, then answers.\<close>

definition answer_then_calls ::
  "tool_call list \<Rightarrow> io_event list \<Rightarrow> request \<Rightarrow> api_error + assistant_msg" where
  "answer_then_calls calls tr req =
     (if provider_calls tr = 1 then Inr (calls_msg calls) else Inr answer_msg)"

text \<open>A search whenever tools are offered, an answer to a request without tools.\<close>

definition search_while_offered :: "io_event list \<Rightarrow> request \<Rightarrow> api_error + assistant_msg" where
  "search_while_offered tr req =
     (if req_tools req = None then Inr answer_msg else Inr (calls_msg [search_call]))"

text \<open>One round of the given tool calls, then a failure with status 500.\<close>

definition calls_then_fail ::
  "tool_call list \<Rightarrow> io_event list \<Rightarrow> request \<Rightarrow> api_error + assistant_msg" where
  "calls_then_fail calls tr req =
     (if provider_calls tr = 0 then Inr (calls_msg calls) else Inl (server_error 500))"

text \<open>One round of the given tool calls, one failure with status 500, then an answer.\<close>

definition calls_fail_answer ::
  "tool_call list \<Rightarrow> io_event list \<Rightarrow> request \<Rightarrow> api_error + assistant_msg" where
  "calls_fail_answer calls tr req =
     (if provider_calls tr = 0 then Inr (calls_msg calls)
      else if provider_calls tr = 1 then Inl (server_error 500)
      else Inr answer_msg)"

definition no_options :: options where
  "no_options = \<lparr>opt_forceSearch = None, opt_context = None, opt_isDeepResearch = None\<rparr>"

definition deep_options :: options where
  "deep_options = \<lparr>opt_forceSearch = None, opt_context = None, opt_isDeepResearch = Some True\<rparr>"

definition context_options :: options where
  "context_options = \<lparr>opt_forceSearch = None, opt_context = Some ''Question 1: what is HOL?'',
     opt_isDeepResearch = None\<rparr>"

section \<open>Facts about the loop\<close>

lemma agentic_loop_enter:
  "iteration st < maxSteps options \<Longrightarrow>
   agentic_loop env options st =
     (case loop_body env options (st\<lparr>iteration := iteration st + 1\<rparr>) of
        Continue st' \<Rightarrow> agentic_loop env options st'
      | Break st' \<Rightarrow> Inr st'
      | Throw e tr \<Rightarrow> Inl (e, tr))"
  by (subst agentic_loop.simps) simp

lemma agentic_loop_exit:
  "\<not> iteration st < maxSteps options \<Longrightarrow> agentic_loop env options st = Inr st"
  by (subst agentic_loop.simps) simp

lemma agentic_loop_Inr_rule:
  assumes run: "agentic_loop env options st = Inr st'"
    and init: "P st"
    and cont: "\<And>s s'. P s \<Longrightarrow> iteration s < maxSteps options \<Longrightarrow>
        loop_body env options (s\<lparr>iteration := iteration s + 1\<rparr>) = Continue s' \<Longrightarrow> P s'"
    and brk: "\<And>s s'. P s \<Longrightarrow> iteration s < maxSteps options \<Longrightarrow>
        loop_body env options (s\<lparr>iteration := iteration s + 1\<rparr>) = Break s' \<Longrightarrow> Q s'"
    and exhausted: "\<And>s. P s \<Longrightarrow> \<not> iteration s < maxSteps options \<Longrightarrow> Q s"
  shows "Q st'"
  using assms
proof (induction env options st rule: agentic_loop.induct)
  case (1 env options st)
  show ?case
  proof (cases "iteration st < maxSteps options")
    case False
    with "1.prems"(1) have "st' = st" by (simp add: agentic_loop_exit)
    with "1.prems"(5) [OF "1.prems"(2) False] show ?thesis by simp
  next
    case True
    show ?thesis
    proof (cases "loop_body env options (st\<lparr>iteration := iteration st + 1\<rparr>)")
      case (Continue s')
      with True "1.prems"(1) have "agentic_loop env options s' = Inr st'"
        by (simp add: agentic_loop_enter)
      moreover have "P s'" using "1.prems"(3) [OF "1.prems"(2) True Continue] .
      ultimately show ?thesis
        using "1.IH" [OF True Continue] "1.prems"(3,4,5) by blast
    next
      case (Break s')
      with True "1.prems"(1) have "s' = st'" by (simp add: agentic_loop_enter)
      with "1.prems"(4) [OF "1.prems"(2) True Break] show ?thesis by simp
    next
      case (Throw e tr)
      with True "1.prems"(1) show ?thesis by (simp add: agentic_loop_enter)
    qed
  qed
qed

lemma agentic_loop_Inl_rule:
  assumes run: "agentic_loop env options st = Inl (e, tr)"
    and init: "P st"
    and cont: "\<And>s s'. P s \<Longrightarrow> iteration s < maxSteps options \<Longrightarrow>
        loop_body env options (s\<lparr>iteration := iteration s + 1\<rparr>) = Continue s' \<Longrightarrow> P s'"
    and thr: "\<And>s. P s \<Longrightarrow> iteration s < maxSteps options \<Longrightarrow>
        loop_body env options (s\<lparr>iteration := iteration s + 1\<rparr>) = Throw e tr \<Longrightarrow> R"
  shows R
  using assms
proof (induction env options st rule: agentic_loop.induct)
  case (1 env options st)
  show ?case
  proof (cases "iteration st < maxSteps options")
    case False
    with "1.prems"(1) show ?thesis by (simp add: agentic_loop_exit)
  next
    case True
    show ?thesis
    proof (cases "loop_body env options (st\<lparr>iteration := iteration st + 1\<rparr>)")
      case (Continue s')
      with True "1.prems"(1) have "agentic_loop env options s' = Inl (e, tr)"
        by (simp add: agentic_loop_enter)
      moreover have "P s'" using "1.prems"(3) [OF "1.prems"(2) True Continue] .
      ultimately show ?thesis
        using "1.IH" [OF True Continue] "1.prems"(3,4) by blast
    next
      case (Break s')
      with True "1.prems"(1) show ?thesis by (simp add: agentic_loop_enter)
    next
      case (Throw e' tr')
      with True "1.prems"(1) have "e' = e" "tr' = tr" by (simp_all add: agentic_loop_enter)
      with "1.prems"(4) [OF "1.prems"(2) True] Throw show ?thesis by simp
    qed
  qed
qed


lemma no_provider_calls_simps [simp]:
  "no_provider_calls []"
  "no_provider_calls (ev # evs) = (\<not> is_provider_call ev \<and> no_provider_calls evs)"
  "no_provider_calls (evs @ evs') = (no_provider_calls evs \<and> no_provider_calls evs')"
  by (auto simp: no_provider_calls_def)

lemma tavily_search_trace:
  "\<exists>evs. snd (tavily_search env tr a) = tr @ evs \<and> no_provider_calls evs"
  by (auto simp: tavily_search_def split: sum.splits)

lemma tavily_extract_trace:
  "\<exists>evs. snd (tavily_extract env tr us) = tr @ evs \<and> no_provider_calls evs"
  by (auto simp: tavily_extract_def split: sum.splits)

lemma web_search_Inr:
  assumes "web_search env options st toolCall args = Inr (st', r)"
  shows "messages st' = messages st \<and> iteration st' = iteration st
     \<and> lastAssistantMessage st' = lastAssistantMessage st
     \<and> totalSearchCount st' = totalSearchCount st + 1
     \<and> length (searchSteps st') = length (searchSteps st) + 1
     \<and> (\<exists>c. r = ToolMsg (call_id toolCall) c)
     \<and> (\<exists>evs. trace st' = trace st @ evs \<and> no_provider_calls evs)"
  using assms tavily_search_trace [of env "trace st"]
  by (auto simp: web_search_def Let_def split: if_splits)

lemma browser_extract_Inr:
  assumes "browser_extract env options st toolCall args = Inr (st', r)"
  shows "messages st' = messages st \<and> iteration st' = iteration st
     \<and> lastAssistantMessage st' = lastAssistantMessage st
     \<and> totalSearchCount st' = totalSearchCount st
     \<and> allSources st' = allSources st
     \<and> length (searchSteps st') = length (searchSteps st) + 1
     \<and> (\<exists>c. r = ToolMsg (call_id toolCall) c)
     \<and> (\<exists>evs. trace st' = trace st @ evs \<and> no_provider_calls evs)"
  using assms tavily_extract_trace [of env "trace st"]
  by (auto simp: browser_extract_def Let_def split: if_splits option.splits json.splits)

lemma processToolCall_Inr:
  assumes "processToolCall env options st toolCall = Inr (st', r)"
  shows "messages st' = messages st \<and> iteration st' = iteration st
     \<and> lastAssistantMessage st' = lastAssistantMessage st
     \<and> totalSearchCount st' = totalSearchCount st + (if counted_call env toolCall then 1 else 0)
     \<and> (\<exists>c. r = ToolMsg (call_id toolCall) c)
     \<and> (\<exists>evs. trace st' = trace st @ evs \<and> no_provider_calls evs)"
proof (cases "JSON_parse env (function_arguments toolCall)")
  case None
  with assms show ?thesis by (auto simp: processToolCall_def counted_call_def)
next
  case (Some args)
  show ?thesis
  proof (cases "function_name toolCall = ''web_search''")
    case True
    with Some assms have "web_search env options st toolCall args = Inr (st', r)"
      by (simp add: processToolCall_def)
    from web_search_Inr [OF this] True Some show ?thesis by (simp add: counted_call_def)
  next
    case False
    show ?thesis
    proof (cases "function_name toolCall = ''browser_extract''")
      case True
      with False Some assms have "browser_extract env options st toolCall args = Inr (st', r)"
        by (simp add: processToolCall_def)
      from browser_extract_Inr [OF this] False show ?thesis by (simp add: counted_call_def)
    next
      case other: False
      with False Some assms show ?thesis by (auto simp: processToolCall_def counted_call_def)
    qed
  qed
qed

lemma processToolCall_Inl:
  assumes "processToolCall env options st toolCall = Inl (e, tr)"
  shows "e = TypeError \<and> tr = trace st"
  using assms
  by (auto simp: processToolCall_def web_search_def browser_extract_def Let_def
      split: option.splits if_splits json.splits)

lemma processToolCalls_Inr:
  "processToolCalls env options st calls = Inr (st', rs) \<Longrightarrow>
   messages st' = messages st \<and> iteration st' = iteration st
     \<and> lastAssistantMessage st' = lastAssistantMessage st
     \<and> totalSearchCount st' = totalSearchCount st + length (filter (counted_call env) calls)
     \<and> list_all is_tool_msg rs \<and> length rs = length calls
     \<and> (\<exists>evs. trace st' = trace st @ evs \<and> no_provider_calls evs)"
proof (induction calls arbitrary: st st' rs)
  case Nil
  then show ?case by simp
next
  case (Cons c calls)
  from Cons.prems obtain st1 r rs1 where
    one: "processToolCall env options st c = Inr (st1, r)" and
    more: "processToolCalls env options st1 calls = Inr (st', rs1)" and
    rs: "rs = r # rs1"
    by (auto split: sum.splits prod.splits)
  from processToolCall_Inr [OF one] Cons.IH [OF more] rs show ?case
    by (auto simp del: processToolCalls.simps)
qed

lemma processToolCalls_Inl:
  "processToolCalls env options st calls = Inl (e, tr) \<Longrightarrow>
   e = TypeError \<and> (\<exists>evs. tr = trace st @ evs \<and> no_provider_calls evs)"
proof (induction calls arbitrary: st)
  case Nil
  then show ?case by simp
next
  case (Cons c calls)
  show ?case
  proof (cases "processToolCall env options st c")
    case (Inl a)
    with Cons.prems have "processToolCall env options st c = Inl (e, tr)" by simp
    from processToolCall_Inl [OF this] show ?thesis by simp
  next
    case (Inr b)
    then obtain st1 r where one: "processToolCall env options st c = Inr (st1, r)"
      by (cases b) auto
    with Cons.prems have "processToolCalls env options st1 calls = Inl (e, tr)"
      by (auto split: sum.splits prod.splits)
    from Cons.IH [OF this] processToolCall_Inr [OF one] show ?thesis by auto
  qed
qed


lemma web_search_calls_append:
  "web_search_calls env (xs @ ys) = web_search_calls env xs + web_search_calls env ys"
  by (induction env xs rule: web_search_calls.induct) auto

lemma tool_msgs_neutral:
  "list_all is_tool_msg rs \<Longrightarrow>
   web_search_calls env rs = 0 \<and> count_list rs continuation_msg = 0
     \<and> filter is_tool_free_reply rs = []"
proof (induction rs)
  case Nil
  then show ?case by simp
next
  case (Cons r rs)
  then show ?case by (cases r) (auto simp: continuation_msg_def)
qed

lemma loop_body_Continue:
  assumes "loop_body env options st = Continue st'"
  shows "iteration st' = iteration st \<and> lastAssistantMessage st' = lastAssistantMessage st
     \<and> (\<exists>added evs. messages st' = messages st @ added
          \<and> totalSearchCount st' = totalSearchCount st + web_search_calls env added
          \<and> count_list added continuation_msg = length (filter is_tool_free_reply added)
          \<and> count_list added continuation_msg \<le> 1
          \<and> (count_list added continuation_msg = 0 \<or> iteration st < maxSteps options)
          \<and> trace st' = trace st @ ProviderCall (callOptions options st) # evs
          \<and> no_provider_calls evs)"
proof (cases "completions_create env (trace st) (callOptions options st)")
  case (Inl apiError)
  with assms show ?thesis
    by (auto simp: loop_body_def Let_def split: option.splits if_splits sum.splits)
next
  case (Inr m)
  show ?thesis
  proof (cases "tool_free m")
    case True
    with Inr assms have st': "st' = st\<lparr>messages := messages st @ [AssistantMsg m, continuation_msg],
        trace := trace st @ [ProviderCall (callOptions options st)]\<rparr>"
      by (auto simp: loop_body_def Let_def tool_free_def split: if_splits)
    have "web_search_calls env [AssistantMsg m, continuation_msg] = 0"
      using True by (auto simp: continuation_msg_def tool_free_def)
    moreover have "count_list [AssistantMsg m, continuation_msg] continuation_msg = 1"
      by (simp add: continuation_msg_def)
    moreover have "filter is_tool_free_reply [AssistantMsg m, continuation_msg] = [AssistantMsg m]"
      using True by (simp add: continuation_msg_def)
    moreover have "iteration st < maxSteps options"
      using True Inr assms by (auto simp: loop_body_def Let_def tool_free_def split: if_splits)
    ultimately show ?thesis unfolding st' by simp
  next
    case False
    then obtain c cs where calls: "tool_calls m = Some (c # cs)"
      by (cases "tool_calls m") (auto simp: tool_free_def neq_Nil_conv)
    let ?s1 = "st\<lparr>messages := messages st @ [AssistantMsg m],
        trace := trace st @ [ProviderCall (callOptions options st)]\<rparr>"
    from calls Inr assms obtain s2 rs where
      run: "processToolCalls env options ?s1 (c # cs) = Inr (s2, rs)" and
      st': "st' = s2\<lparr>messages := messages s2 @ rs\<rparr>"
      by (auto simp: loop_body_def Let_def simp del: processToolCalls.simps
          split: sum.splits prod.splits)
    from processToolCalls_Inr [OF run] obtain evs where
      s2: "messages s2 = messages st @ [AssistantMsg m]" "iteration s2 = iteration st"
        "lastAssistantMessage s2 = lastAssistantMessage st"
        "totalSearchCount s2 = totalSearchCount st + length (filter (counted_call env) (c # cs))"
        "list_all is_tool_msg rs"
        "trace s2 = trace st @ ProviderCall (callOptions options st) # evs"
        "no_provider_calls evs"
      by auto
    from tool_msgs_neutral [OF s2(5), of env] have rs:
      "web_search_calls env rs = 0" "count_list rs continuation_msg = 0"
      "filter is_tool_free_reply rs = []" by simp_all
    have "messages st' = messages st @ (AssistantMsg m # rs)" using st' s2 by simp
    moreover have "web_search_calls env (AssistantMsg m # rs)
        = length (filter (counted_call env) (c # cs))"
      using calls rs by simp
    moreover have "count_list (AssistantMsg m # rs) continuation_msg = 0"
      using rs by (simp add: continuation_msg_def)
    moreover have "filter is_tool_free_reply (AssistantMsg m # rs) = []"
      using rs calls by (simp add: tool_free_def)
    ultimately show ?thesis using st' s2 by (intro conjI exI [of _ "AssistantMsg m # rs"] exI [of _ evs]) simp_all
  qed
qed

lemma loop_body_Break:
  assumes "loop_body env options st = Break st'"
  shows "iteration st' = iteration st \<and> messages st' = messages st
     \<and> totalSearchCount st' = totalSearchCount st \<and> searchSteps st' = searchSteps st
     \<and> allSources st' = allSources st \<and> lastAssistantMessage st' \<noteq> None
     \<and> (\<exists>evs. trace st' = trace st @ ProviderCall (callOptions options st) # evs
          \<and> (evs = [] \<or> evs = [ProviderCall (plain_request (messages st) (7 / 10))]))"
  using assms
  by (auto simp: loop_body_def Let_def simp del: processToolCalls.simps
      split: sum.splits option.splits list.splits if_splits prod.splits)

lemma loop_body_Throw:
  assumes "loop_body env options st = Throw e tr"
  shows "\<exists>evs. tr = trace st @ ProviderCall (callOptions options st) # evs
     \<and> (no_provider_calls evs \<or> evs = [ProviderCall (plain_request (messages st) (7 / 10))])"
proof (cases "completions_create env (trace st) (callOptions options st)")
  case (Inl apiError)
  with assms show ?thesis
    by (auto simp: loop_body_def Let_def split: option.splits if_splits sum.splits)
next
  case (Inr m)
  let ?s1 = "st\<lparr>messages := messages st @ [AssistantMsg m],
      trace := trace st @ [ProviderCall (callOptions options st)]\<rparr>"
  from Inr assms obtain calls where "processToolCalls env options ?s1 calls = Inl (e, tr)"
    by (auto simp: loop_body_def Let_def simp del: processToolCalls.simps
        split: sum.splits prod.splits option.splits list.splits if_splits)
  from processToolCalls_Inl [OF this] show ?thesis by auto
qed

lemma maxSteps_pos: "0 < maxSteps options" "1 < maxSteps options"
  by (simp_all add: maxSteps_def MAX_AGENTIC_STEPS_def)

lemma chat_Inr:
  assumes "chat env message hist arg = Inr r"
  shows "\<exists>st m. chat_try env message hist (normalize_options arg) = Inr st
     \<and> lastAssistantMessage st = Some m
     \<and> response r = content m \<and> searchPerformed r = (totalSearchCount st > 0)
     \<and> sources r = deduplicateSources (allSources st)
     \<and> result_searchSteps r = searchSteps st
     \<and> totalSteps r = iteration st \<and> totalSearches r = totalSearchCount st"
  using assms
  by (auto simp: chat_def Let_def split: sum.splits option.splits prod.splits)

lemma chat_try_Inr:
  assumes "chat_try env message hist options = Inr st"
  shows "\<exists>st0. agentic_loop env options (initial_state env message hist options) = Inr st0
     \<and> messages st = messages st0 \<and> iteration st = iteration st0
     \<and> totalSearchCount st = totalSearchCount st0 \<and> searchSteps st = searchSteps st0
     \<and> allSources st = allSources st0
     \<and> (lastAssistantMessage st0 \<noteq> None \<longrightarrow> st = st0)
     \<and> (lastAssistantMessage st0 = None \<longrightarrow>
          trace st = trace st0 @ [ProviderCall (plain_request (messages st0) (5 / 10))])"
  using assms
  by (auto simp: chat_try_def split: sum.splits option.splits)

lemma chat_try_Inr_cases:
  assumes "chat_try env message hist options = Inr st"
  obtains (answered)
      "agentic_loop env options (initial_state env message hist options) = Inr st"
      "lastAssistantMessage st \<noteq> None"
    | (synthesized) st0 finalCall where
      "agentic_loop env options (initial_state env message hist options) = Inr st0"
      "lastAssistantMessage st0 = None"
      "completions_create env (trace st0) (plain_request (messages st0) (5 / 10)) = Inr finalCall"
      "st = st0\<lparr>lastAssistantMessage := Some finalCall,
          trace := trace st0 @ [ProviderCall (plain_request (messages st0) (5 / 10))]\<rparr>"
  using assms by (auto simp: chat_try_def split: sum.splits option.splits)

lemma agentic_loop_progress:
  assumes "agentic_loop env options st = Inr st'"
  shows "iteration st \<le> iteration st'
     \<and> (iteration st \<le> maxSteps options \<longrightarrow> iteration st' \<le> maxSteps options)
     \<and> (\<exists>added. messages st' = messages st @ added
          \<and> totalSearchCount st' = totalSearchCount st + web_search_calls env added
          \<and> count_list added continuation_msg = length (filter is_tool_free_reply added)
          \<and> count_list added continuation_msg \<le> iteration st' - iteration st
          \<and> (count_list added continuation_msg = 0
               \<or> count_list added continuation_msg < maxSteps options))"
    (is "?Q st'")
proof (rule agentic_loop_Inr_rule [OF assms, where P = ?Q and Q = ?Q])
  show "?Q st" by simp
next
  fix s s'
  assume inv: "?Q s" and lt: "iteration s < maxSteps options"
    and step: "loop_body env options (s\<lparr>iteration := iteration s + 1\<rparr>) = Continue s'"
  from inv obtain added where a:
    "messages s = messages st @ added"
    "totalSearchCount s = totalSearchCount st + web_search_calls env added"
    "count_list added continuation_msg = length (filter is_tool_free_reply added)"
    "count_list added continuation_msg \<le> iteration s - iteration st"
    "count_list added continuation_msg = 0 \<or> count_list added continuation_msg < maxSteps options"
    by blast
  from loop_body_Continue [OF step] obtain more where m:
    "iteration s' = iteration s + 1"
    "messages s' = messages s @ more"
    "totalSearchCount s' = totalSearchCount s + web_search_calls env more"
    "count_list more continuation_msg = length (filter is_tool_free_reply more)"
    "count_list more continuation_msg \<le> 1"
    "count_list more continuation_msg = 0 \<or> iteration s + 1 < maxSteps options"
    by auto
  have "messages s' = messages st @ (added @ more)" using a m by simp
  moreover have "totalSearchCount s' = totalSearchCount st + web_search_calls env (added @ more)"
    using a m by (simp add: web_search_calls_append)
  moreover have "count_list (added @ more) continuation_msg
      = length (filter is_tool_free_reply (added @ more))"
    using a m by simp
  moreover have "count_list (added @ more) continuation_msg \<le> iteration s' - iteration st"
    using a m inv by auto
  moreover have "count_list (added @ more) continuation_msg = 0
      \<or> count_list (added @ more) continuation_msg < maxSteps options"
    using a m inv lt by auto
  ultimately have "\<exists>added. messages s' = messages st @ added
      \<and> totalSearchCount s' = totalSearchCount st + web_search_calls env added
      \<and> count_list added continuation_msg = length (filter is_tool_free_reply added)
      \<and> count_list added continuation_msg \<le> iteration s' - iteration st
      \<and> (count_list added continuation_msg = 0
           \<or> count_list added continuation_msg < maxSteps options)"
    by blast
  moreover have "iteration st \<le> iteration s'" using inv m by simp
  moreover have "iteration st \<le> maxSteps options \<longrightarrow> iteration s' \<le> maxSteps options"
    using m lt by simp
  ultimately show "?Q s'" by blast
next
  fix s s'
  assume inv: "?Q s" and lt: "iteration s < maxSteps options"
    and step: "loop_body env options (s\<lparr>iteration := iteration s + 1\<rparr>) = Break s'"
  from loop_body_Break [OF step] have b:
    "iteration s' = iteration s + 1" "messages s' = messages s"
    "totalSearchCount s' = totalSearchCount s"
    by simp_all
  from inv obtain added where a:
    "messages s = messages st @ added"
    "totalSearchCount s = totalSearchCount st + web_search_calls env added"
    "count_list added continuation_msg = length (filter is_tool_free_reply added)"
    "count_list added continuation_msg \<le> iteration s - iteration st"
    "count_list added continuation_msg = 0 \<or> count_list added continuation_msg < maxSteps options"
    by blast
  have "\<exists>added. messages s' = messages st @ added
      \<and> totalSearchCount s' = totalSearchCount st + web_search_calls env added
      \<and> count_list added continuation_msg = length (filter is_tool_free_reply added)
      \<and> count_list added continuation_msg \<le> iteration s' - iteration st
      \<and> (count_list added continuation_msg = 0
           \<or> count_list added continuation_msg < maxSteps options)"
    using a b by (intro exI [of _ added]) auto
  moreover have "iteration st \<le> iteration s'" using inv b by simp
  moreover have "iteration st \<le> maxSteps options \<longrightarrow> iteration s' \<le> maxSteps options"
    using b lt by simp
  ultimately show "?Q s'" by blast
next
  fix s
  assume "?Q s" and "\<not> iteration s < maxSteps options"
  then show "?Q s" by simp
qed

lemma agentic_loop_enters:
  assumes "iteration st < maxSteps options" and "agentic_loop env options st = Inr st'"
  shows "iteration st + 1 \<le> iteration st'"
proof (cases "loop_body env options (st\<lparr>iteration := iteration st + 1\<rparr>)")
  case (Continue s)
  with assms have "agentic_loop env options s = Inr st'" by (simp add: agentic_loop_enter)
  from agentic_loop_progress [OF this] loop_body_Continue [OF Continue] show ?thesis by simp
next
  case (Break s)
  with assms have "s = st'" by (simp add: agentic_loop_enter)
  with loop_body_Break [OF Break] show ?thesis by simp
next
  case (Throw e tr)
  with assms show ?thesis by (simp add: agentic_loop_enter)
qed

lemma loop_body_tool_free:
  assumes "completions_create env (trace st) (callOptions options st) = Inr m"
    and "tool_free m"
  shows "loop_body env options st =
     (if isDeepResearch options \<and> totalSearchCount st < 4 \<and> iteration st < maxSteps options then
        Continue (st\<lparr>messages := messages st @ [AssistantMsg m, continuation_msg],
                    trace := trace st @ [ProviderCall (callOptions options st)]\<rparr>)
      else Break (st\<lparr>lastAssistantMessage := Some m,
                    trace := trace st @ [ProviderCall (callOptions options st)]\<rparr>))"
  using assms by (auto simp: loop_body_def Let_def tool_free_def)

lemma chat_try_progress:
  assumes "chat_try env message hist options = Inr st"
  shows "iteration st \<le> maxSteps options
     \<and> (\<exists>added. messages st = messages (initial_state env message hist options) @ added
          \<and> totalSearchCount st = web_search_calls env added
          \<and> count_list added continuation_msg = length (filter is_tool_free_reply added)
          \<and> count_list added continuation_msg \<le> iteration st
          \<and> count_list added continuation_msg < maxSteps options)"
proof -
  from chat_try_Inr [OF assms] obtain st0 where
    loop: "agentic_loop env options (initial_state env message hist options) = Inr st0" and
    same: "messages st = messages st0" "iteration st = iteration st0"
      "totalSearchCount st = totalSearchCount st0"
    by blast
  from agentic_loop_progress [OF loop] same maxSteps_pos(1) [of options] show ?thesis
    by (auto simp: initial_state_def)
qed

lemma processToolCall_other_tools:
  assumes "function_name toolCall \<noteq> ''web_search''"
    and "processToolCall env options st toolCall = Inr (st', r)"
  shows "totalSearchCount st' = totalSearchCount st \<and> allSources st' = allSources st"
  using assms
  by (auto simp: processToolCall_def browser_extract_def Let_def
      split: option.splits if_splits json.splits)

lemma no_provider_calls_tool_less: "no_provider_calls evs \<Longrightarrow> list_all tool_less evs"
proof (induction evs)
  case Nil
  then show ?case by simp
next
  case (Cons e evs)
  then show ?case by (cases e) auto
qed

lemma chat_try_Inl:
  assumes "chat_try env message hist options = Inl (e, tr)"
  shows "agentic_loop env options (initial_state env message hist options) = Inl (e, tr)
     \<or> (\<exists>st0. agentic_loop env options (initial_state env message hist options) = Inr st0
          \<and> tr = trace st0 @ [ProviderCall (plain_request (messages st0) (5 / 10))])"
  using assms by (auto simp: chat_try_def split: sum.splits option.splits)

lemma context_requests_tool_less:
  assumes "context_str options \<noteq> []"
  shows "tool_less (ProviderCall (callOptions options st))"
  using assms by (simp add: callOptions_def tools_def)

lemma tool_less_plain: "tool_less (ProviderCall (plain_request ms t))"
  by (simp add: plain_request_def)

lemma context_loop_trace_Inr:
  assumes ctx: "context_str options \<noteq> []"
    and run: "agentic_loop env options st = Inr st'"
    and init: "list_all tool_less (trace st)"
  shows "list_all tool_less (trace st')"
proof (rule agentic_loop_Inr_rule [OF run,
      where P = "\<lambda>s. list_all tool_less (trace s)" and Q = "\<lambda>s. list_all tool_less (trace s)"])
  show "list_all tool_less (trace st)" by (rule init)
next
  fix s s'
  assume inv: "list_all tool_less (trace s)"
    and step: "loop_body env options (s\<lparr>iteration := iteration s + 1\<rparr>) = Continue s'"
  from loop_body_Continue [OF step] obtain evs where
    "trace s' = trace s @ ProviderCall (callOptions options (s\<lparr>iteration := iteration s + 1\<rparr>)) # evs"
    "no_provider_calls evs" by auto
  with inv context_requests_tool_less [OF ctx] no_provider_calls_tool_less
  show "list_all tool_less (trace s')" by simp
next
  fix s s'
  assume inv: "list_all tool_less (trace s)"
    and step: "loop_body env options (s\<lparr>iteration := iteration s + 1\<rparr>) = Break s'"
  from loop_body_Break [OF step] obtain evs where
    "trace s' = trace s @ ProviderCall (callOptions options (s\<lparr>iteration := iteration s + 1\<rparr>)) # evs"
    "evs = [] \<or> evs = [ProviderCall (plain_request (messages (s\<lparr>iteration := iteration s + 1\<rparr>)) (7 / 10))]"
    by auto
  with inv context_requests_tool_less [OF ctx] tool_less_plain
  show "list_all tool_less (trace s')" by auto
next
  fix s
  assume "list_all tool_less (trace s)"
  then show "list_all tool_less (trace s)" .
qed

lemma context_loop_trace_Inl:
  assumes ctx: "context_str options \<noteq> []"
    and run: "agentic_loop env options st = Inl (e, tr)"
    and init: "list_all tool_less (trace st)"
  shows "list_all tool_less tr"
proof (rule agentic_loop_Inl_rule [OF run, where P = "\<lambda>s. list_all tool_less (trace s)"])
  show "list_all tool_less (trace st)" by (rule init)
next
  fix s s'
  assume inv: "list_all tool_less (trace s)"
    and step: "loop_body env options (s\<lparr>iteration := iteration s + 1\<rparr>) = Continue s'"
  from loop_body_Continue [OF step] obtain evs where
    "trace s' = trace s @ ProviderCall (callOptions options (s\<lparr>iteration := iteration s + 1\<rparr>)) # evs"
    "no_provider_calls evs" by auto
  with inv context_requests_tool_less [OF ctx] no_provider_calls_tool_less
  show "list_all tool_less (trace s')" by simp
next
  fix s
  assume inv: "list_all tool_less (trace s)"
    and step: "loop_body env options (s\<lparr>iteration := iteration s + 1\<rparr>) = Throw e tr"
  from loop_body_Throw [OF step] obtain evs where
    "tr = trace s @ ProviderCall (callOptions options (s\<lparr>iteration := iteration s + 1\<rparr>)) # evs"
    "no_provider_calls evs
      \<or> evs = [ProviderCall (plain_request (messages (s\<lparr>iteration := iteration s + 1\<rparr>)) (7 / 10))]"
    by auto
  with inv context_requests_tool_less [OF ctx] tool_less_plain no_provider_calls_tool_less
  show "list_all tool_less tr" by auto
qed

lemma context_trace_tool_less:
  assumes ctx: "context_str options \<noteq> []"
  shows "list_all tool_less (trace_of (chat_try env message hist options))"
proof (cases "chat_try env message hist options")
  case (Inr st)
  from Inr have "list_all tool_less (trace st)"
  proof (cases rule: chat_try_Inr_cases)
    case answered
    show ?thesis
      by (rule context_loop_trace_Inr [OF ctx answered(1)]) (simp add: initial_state_def)
  next
    case (synthesized st0 finalCall)
    have "list_all tool_less (trace st0)"
      by (rule context_loop_trace_Inr [OF ctx synthesized(1)]) (simp add: initial_state_def)
    with synthesized(4) tool_less_plain show ?thesis by simp
  qed
  with Inr show ?thesis by simp
next
  case (Inl a)
  then obtain e tr where a: "chat_try env message hist options = Inl (e, tr)" by (cases a) auto
  from chat_try_Inl [OF a] have "list_all tool_less tr"
  proof
    assume "agentic_loop env options (initial_state env message hist options) = Inl (e, tr)"
    from context_loop_trace_Inl [OF ctx this] show ?thesis by (simp add: initial_state_def)
  next
    assume "\<exists>st0. agentic_loop env options (initial_state env message hist options) = Inr st0
        \<and> tr = trace st0 @ [ProviderCall (plain_request (messages st0) (5 / 10))]"
    then obtain st0 where st0:
      "agentic_loop env options (initial_state env message hist options) = Inr st0
        \<and> tr = trace st0 @ [ProviderCall (plain_request (messages st0) (5 / 10))]" ..
    then have loop: "agentic_loop env options (initial_state env message hist options) = Inr st0"
      and tr: "tr = trace st0 @ [ProviderCall (plain_request (messages st0) (5 / 10))]"
      by simp_all
    have "list_all tool_less (trace st0)"
      by (rule context_loop_trace_Inr [OF ctx loop]) (simp add: initial_state_def)
    with tr tool_less_plain show ?thesis by simp
  qed
  with a show ?thesis by simp
qed

lemma context_no_tools_loop:
  assumes ctx: "context_str options \<noteq> []"
    and enforced: "\<And>tr req m. req_tools req = None \<Longrightarrow>
        completions_create env tr req = Inr m \<Longrightarrow> tool_free m"
    and loop: "agentic_loop env options st = Inr st0"
    and init: "untouched st"
  shows "untouched st0"
proof (rule agentic_loop_Inr_rule [OF loop, where P = untouched and Q = untouched])
  show "untouched st" by (rule init)
next
  fix s s'
  assume inv: "untouched s"
    and step: "loop_body env options (s\<lparr>iteration := iteration s + 1\<rparr>) = Continue s'"
  let ?s1 = "s\<lparr>iteration := iteration s + 1\<rparr>"
  from step obtain m where
    reply: "completions_create env (trace ?s1) (callOptions options ?s1) = Inr m"
    by (cases "completions_create env (trace ?s1) (callOptions options ?s1)")
      (auto simp: loop_body_def Let_def split: option.splits if_splits sum.splits)
  have "req_tools (callOptions options ?s1) = None"
    using ctx by (simp add: callOptions_def tools_def)
  from enforced [OF this reply] have "tool_free m" .
  from loop_body_tool_free [OF reply this] step inv show "untouched s'"
    by (auto simp: untouched_def split: if_splits)
next
  fix s s'
  assume inv: "untouched s"
    and step: "loop_body env options (s\<lparr>iteration := iteration s + 1\<rparr>) = Break s'"
  from loop_body_Break [OF step] inv show "untouched s'"
    by (auto simp: untouched_def)
next
  fix s
  assume "untouched s"
  then show "untouched s" .
qed

lemma context_no_tools_run:
  assumes ctx: "context_str options \<noteq> []"
    and enforced: "\<And>tr req m. req_tools req = None \<Longrightarrow>
        completions_create env tr req = Inr m \<Longrightarrow> tool_free m"
    and run: "chat_try env message hist options = Inr st"
  shows "untouched st"
  using run
proof (cases rule: chat_try_Inr_cases)
  case answered
  show ?thesis
    by (rule context_no_tools_loop [OF ctx enforced answered(1)])
      (simp_all add: untouched_def initial_state_def)
next
  case (synthesized st0 finalCall)
  have "untouched st0"
    by (rule context_no_tools_loop [OF ctx enforced synthesized(1)])
      (simp_all add: untouched_def initial_state_def)
  with synthesized(4) show ?thesis by (simp add: untouched_def)
qed

lemma context_no_tools_throw:
  assumes ctx: "context_str options \<noteq> []"
    and enforced: "\<And>tr req m. req_tools req = None \<Longrightarrow>
        completions_create env tr req = Inr m \<Longrightarrow> tool_free m"
    and step: "loop_body env options st = Throw e tr"
    and inv: "untouched st"
  shows "list_all is_provider_call tr"
proof (cases "completions_create env (trace st) (callOptions options st)")
  case (Inl apiError)
  with step inv show ?thesis
    by (auto simp: loop_body_def Let_def untouched_def split: option.splits if_splits sum.splits)
next
  case (Inr m)
  have "req_tools (callOptions options st) = None"
    using ctx by (simp add: callOptions_def tools_def)
  from enforced [OF this Inr] have "tool_free m" .
  from loop_body_tool_free [OF Inr this] step show ?thesis by (simp split: if_splits)
qed

lemma context_no_tools_loop_Inl:
  assumes ctx: "context_str options \<noteq> []"
    and enforced: "\<And>tr req m. req_tools req = None \<Longrightarrow>
        completions_create env tr req = Inr m \<Longrightarrow> tool_free m"
    and loop: "agentic_loop env options st = Inl (e, tr)"
    and init: "untouched st"
  shows "list_all is_provider_call tr"
proof (rule agentic_loop_Inl_rule [OF loop, where P = untouched])
  show "untouched st" by (rule init)
next
  fix s s'
  assume inv: "untouched s"
    and step: "loop_body env options (s\<lparr>iteration := iteration s + 1\<rparr>) = Continue s'"
  let ?s1 = "s\<lparr>iteration := iteration s + 1\<rparr>"
  from step obtain m where
    reply: "completions_create env (trace ?s1) (callOptions options ?s1) = Inr m"
    by (cases "completions_create env (trace ?s1) (callOptions options ?s1)")
      (auto simp: loop_body_def Let_def split: option.splits if_splits sum.splits)
  have "req_tools (callOptions options ?s1) = None"
    using ctx by (simp add: callOptions_def tools_def)
  from enforced [OF this reply] have "tool_free m" .
  from loop_body_tool_free [OF reply this] step inv show "untouched s'"
    by (auto simp: untouched_def split: if_splits)
next
  fix s
  assume inv: "untouched s"
    and step: "loop_body env options (s\<lparr>iteration := iteration s + 1\<rparr>) = Throw e tr"
  have "untouched (s\<lparr>iteration := iteration s + 1\<rparr>)" using inv by (simp add: untouched_def)
  from context_no_tools_throw [OF ctx enforced step this]
  show "list_all is_provider_call tr" .
qed

lemma context_no_tools_failing_run:
  assumes ctx: "context_str options \<noteq> []"
    and enforced: "\<And>tr req m. req_tools req = None \<Longrightarrow>
        completions_create env tr req = Inr m \<Longrightarrow> tool_free m"
    and run: "chat_try env message hist options = Inl (e, tr)"
  shows "list_all is_provider_call tr"
proof -
  have init: "untouched (initial_state env message hist options)"
    by (simp add: untouched_def initial_state_def)
  from chat_try_Inl [OF run] show ?thesis
  proof
    assume "agentic_loop env options (initial_state env message hist options) = Inl (e, tr)"
    from context_no_tools_loop_Inl [OF ctx enforced this init] show ?thesis .
  next
    assume "\<exists>st0. agentic_loop env options (initial_state env message hist options) = Inr st0
        \<and> tr = trace st0 @ [ProviderCall (plain_request (messages st0) (5 / 10))]"
    then obtain st0 where st0:
      "agentic_loop env options (initial_state env message hist options) = Inr st0
        \<and> tr = trace st0 @ [ProviderCall (plain_request (messages st0) (5 / 10))]" ..
    then have loop: "agentic_loop env options (initial_state env message hist options) = Inr st0"
      and tr: "tr = trace st0 @ [ProviderCall (plain_request (messages st0) (5 / 10))]"
      by simp_all
    from context_no_tools_loop [OF ctx enforced loop init] have "untouched st0" .
    with tr show ?thesis by (simp add: untouched_def)
  qed
qed

lemma unparsable_round:
  "list_all (\<lambda>c. JSON_parse env (function_arguments c) = None) calls \<Longrightarrow>
   processToolCalls env options st calls = Inr (st, map invalid_json_msg calls)"
  by (induction calls) (simp_all add: processToolCall_def invalid_json_msg_def)

text \<open>The equations by which a run on a concrete input is evaluated.\<close>

lemmas run_defs =
  chat_def chat_try_def initial_state_def first_request_def normalize_options_def
  finalSystemPrompt_def loop_body_def callOptions_def plain_request_def processToolCall_def
  web_search_def browser_extract_def tavily_search_def tavily_extract_def
  tavily_handleError_def salvaged_text_def finalFailedText_def is_tool_use_failed_def
  errorBody_def message_includes_def from_brace_def or_json_def or_str_def or_status_def
  falsy_str_def forceSearch_def context_str_def isDeepResearch_def tools_def toolChoice_def
  maxSteps_def MAX_AGENTIC_STEPS_def MODEL_NAME_def handleError_def status_of_def
  deduplicateSources_def format_item_def nl_def agentic_loop_enter agentic_loop_exit Let_def

lemmas example_defs =
  example_env_def example_parse_def example_source_def answer_msg_def search_call_def
  broken_call_def extract_call_def calls_msg_def server_error_def always_answer_def
  always_fail_def calls_then_answer_def search_while_offered_def calls_then_fail_def
  calls_fail_answer_def answer_then_calls_def provider_calls_def no_options_def deep_options_def
  context_options_def rejected_tool_use_def always_reject_def

section \<open>Facts about the deduplication\<close>





section \<open>The properties\<close>

text \<open>
  Claim C1. In deep-research mode, when the reply of an iteration carries no tool call
  while the search counter is below 4 and the iteration just counted is below the
  maximum, the loop body ends in \<^verbatim>\<open>continue\<close>: the reply and the synthetic user instruction
  are appended to the transcript and the loop body runs again on the extended
  transcript. Every state the loop then ends in has counted at least two more
  iterations than the state it started from; when this happens on the first iteration
  of a run, every result \<open>chat\<close> returns has \<open>totalSteps\<close> at least 2.
\<close>

theorem shallow_deep_research_is_continued:
  assumes deep: "isDeepResearch options"
    and shallow: "totalSearchCount st < 4"
    and budget: "iteration st + 1 < maxSteps options"
    and reply: "completions_create env (trace st)
        (callOptions options (st\<lparr>iteration := iteration st + 1\<rparr>)) = Inr m"
    and no_calls: "tool_free m"
  shows "loop_body env options (st\<lparr>iteration := iteration st + 1\<rparr>)
       = Continue (forced_state options st m)
     \<and> agentic_loop env options st =
         (case loop_body env options ((forced_state options st m)\<lparr>iteration := iteration st + 2\<rparr>) of
            Continue st' \<Rightarrow> agentic_loop env options st'
          | Break st' \<Rightarrow> Inr st'
          | Throw e tr \<Rightarrow> Inl (e, tr))
     \<and> (\<forall>st'. agentic_loop env options st = Inr st' \<longrightarrow> iteration st + 2 \<le> iteration st')
     \<and> (\<forall>message hist r. st = initial_state env message hist options
          \<longrightarrow> chat env message hist (OptionsObject options) = Inr r \<longrightarrow> 2 \<le> totalSteps r)"
proof -
  let ?s1 = "st\<lparr>iteration := iteration st + 1\<rparr>"
  let ?f = "forced_state options st m"
  have reply': "completions_create env (trace ?s1) (callOptions options ?s1) = Inr m"
    using reply by simp
  have body: "loop_body env options ?s1 = Continue ?f"
    using loop_body_tool_free [OF reply' no_calls] deep shallow budget
    by (simp add: forced_state_def)
  have enter: "iteration st < maxSteps options" using budget by simp
  have first: "agentic_loop env options st = agentic_loop env options ?f"
    using body enter by (simp add: agentic_loop_enter)
  have again: "iteration ?f < maxSteps options" using budget by (simp add: forced_state_def)
  have "?f\<lparr>iteration := iteration ?f + 1\<rparr> = ?f\<lparr>iteration := iteration st + 2\<rparr>"
    by (simp add: forced_state_def)
  with agentic_loop_enter [OF again, of env] first
  have second: "agentic_loop env options st =
      (case loop_body env options (?f\<lparr>iteration := iteration st + 2\<rparr>) of
         Continue st' \<Rightarrow> agentic_loop env options st'
       | Break st' \<Rightarrow> Inr st'
       | Throw e tr \<Rightarrow> Inl (e, tr))"
    by simp
  have final: "iteration st + 2 \<le> iteration st'" if "agentic_loop env options st = Inr st'" for st'
  proof -
    from that first have "agentic_loop env options ?f = Inr st'" by simp
    from agentic_loop_enters [OF again this] show ?thesis by (simp add: forced_state_def)
  qed
  have "2 \<le> totalSteps r"
    if init: "st = initial_state env message hist options"
      and res: "chat env message hist (OptionsObject options) = Inr r" for message hist r
  proof -
    from chat_Inr [OF res] obtain st1 where
      t: "chat_try env message hist options = Inr st1" and r: "totalSteps r = iteration st1"
      by (auto simp: normalize_options_def)
    from chat_try_Inr [OF t] obtain st0 where
      "agentic_loop env options (initial_state env message hist options) = Inr st0"
      "iteration st1 = iteration st0" by blast
    with final [of st0] init r show ?thesis by simp
  qed
  with body second final show ?thesis by blast
qed

text \<open>
  The theorem at a run in deep-research mode whose provider answers without tool calls,
  then asks for four searches, then answers: the first iteration is continued and the
  run ends after three iterations.
\<close>

theorem shallow_deep_research_example:
  "isDeepResearch deep_options
   \<and> tool_free answer_msg
   \<and> loop_body
       (example_env (Some ''key'')
          (answer_then_calls [search_call, search_call, search_call, search_call]))
       deep_options
       ((initial_state
           (example_env (Some ''key'')
              (answer_then_calls [search_call, search_call, search_call, search_call]))
           ''q'' [] deep_options)\<lparr>iteration := 1\<rparr>)
     = Continue (forced_state deep_options
         (initial_state
            (example_env (Some ''key'')
               (answer_then_calls [search_call, search_call, search_call, search_call]))
            ''q'' [] deep_options)
         answer_msg)
   \<and> (\<exists>r. chat
           (example_env (Some ''key'')
              (answer_then_calls [search_call, search_call, search_call, search_call]))
           ''q'' [] (OptionsObject deep_options) = Inr r
        \<and> totalSteps r = 3 \<and> totalSearches r = 4 \<and> 2 \<le> totalSteps r)"
proof -
  let ?env = "example_env (Some ''key'')
      (answer_then_calls [search_call, search_call, search_call, search_call])"
  let ?st = "initial_state ?env ''q'' [] deep_options"
  have deep: "isDeepResearch deep_options"
    by (simp add: isDeepResearch_def deep_options_def)
  have shallow: "totalSearchCount ?st < 4" by (simp add: initial_state_def)
  have budget: "iteration ?st + 1 < maxSteps deep_options"
    using deep by (simp add: initial_state_def maxSteps_def)
  have reply: "completions_create ?env (trace ?st)
      (callOptions deep_options (?st\<lparr>iteration := iteration ?st + 1\<rparr>)) = Inr answer_msg"
    by (simp add: initial_state_def example_env_def answer_then_calls_def provider_calls_def)
  have free: "tool_free answer_msg" by (simp add: tool_free_def answer_msg_def)
  note continued = shallow_deep_research_is_continued [OF deep shallow budget reply free]
  have one: "iteration ?st + 1 = 1" by (simp add: initial_state_def)
  have run: "\<exists>r. chat ?env ''q'' [] (OptionsObject deep_options) = Inr r
      \<and> totalSteps r = 3 \<and> totalSearches r = 4"
    by (simp add: run_defs example_defs answer_then_calls_def)
  then obtain r where r: "chat ?env ''q'' [] (OptionsObject deep_options) = Inr r"
    "totalSteps r = 3" "totalSearches r = 4" by auto
  from continued r(1) have "2 \<le> totalSteps r" by blast
  with r continued deep free one show ?thesis by auto
qed

text \<open>
  Claim C2. The maximum iteration count is 10 in deep-research mode and 6 otherwise, and
  the \<open>totalSteps\<close> of every result is at most it. In the transcript a run leaves, the
  forced-continuation instruction was appended exactly once for each tool-free reply
  that was appended (a reply is appended only when the continuation fires), and fewer
  times than the maximum iteration count. The closing completion request issued after
  the loop leaves the iteration count as the loop left it.
\<close>

theorem iterations_within_budget:
  "maxSteps options = (if isDeepResearch options then 10 else 6)
   \<and> (\<forall>r. chat env message hist arg = Inr r \<longrightarrow> totalSteps r \<le> maxSteps (normalize_options arg))
   \<and> (\<forall>st. chat_try env message hist options = Inr st \<longrightarrow>
         iteration st \<le> maxSteps options
         \<and> (\<exists>added. messages st = messages (initial_state env message hist options) @ added
              \<and> count_list added continuation_msg = length (filter is_tool_free_reply added)
              \<and> count_list added continuation_msg < maxSteps options))
   \<and> (\<forall>st0 st. agentic_loop env options (initial_state env message hist options) = Inr st0
         \<longrightarrow> chat_try env message hist options = Inr st
         \<longrightarrow> iteration st = iteration st0
           \<and> (lastAssistantMessage st0 = None \<longrightarrow>
                trace st = trace st0 @ [ProviderCall (plain_request (messages st0) (5 / 10))]))"
proof -
  have a: "maxSteps options = (if isDeepResearch options then 10 else 6)"
    by (simp add: maxSteps_def MAX_AGENTIC_STEPS_def)
  have b: "totalSteps r \<le> maxSteps (normalize_options arg)"
    if "chat env message hist arg = Inr r" for r
  proof -
    from chat_Inr [OF that] obtain st where
      "chat_try env message hist (normalize_options arg) = Inr st" "totalSteps r = iteration st"
      by auto
    with chat_try_progress [of env message hist "normalize_options arg" st] show ?thesis by simp
  qed
  have c: "iteration st \<le> maxSteps options
      \<and> (\<exists>added. messages st = messages (initial_state env message hist options) @ added
           \<and> count_list added continuation_msg = length (filter is_tool_free_reply added)
           \<and> count_list added continuation_msg < maxSteps options)"
    if "chat_try env message hist options = Inr st" for st
    using chat_try_progress [OF that] by blast
  have d: "iteration st = iteration st0
      \<and> (lastAssistantMessage st0 = None \<longrightarrow>
           trace st = trace st0 @ [ProviderCall (plain_request (messages st0) (5 / 10))])"
    if "agentic_loop env options (initial_state env message hist options) = Inr st0"
      and "chat_try env message hist options = Inr st" for st0 st
    using chat_try_Inr [OF that(2)] that(1) by auto
  from a b c d show ?thesis by blast
qed

text \<open>
  The theorem at a run whose provider asks for a search whenever tools are offered: the
  loop uses its six iterations, the closing request is the seventh provider request,
  and \<open>totalSteps\<close> is 6.
\<close>

theorem iterations_within_budget_example:
  "maxSteps (normalize_options (LegacyForceSearch False)) = 6
   \<and> (\<exists>r. chat (example_env (Some ''key'') search_while_offered) ''q'' [] (LegacyForceSearch False)
          = Inr r \<and> totalSteps r = 6 \<and> totalSearches r = 6
          \<and> totalSteps r \<le> maxSteps (normalize_options (LegacyForceSearch False)))
   \<and> map is_provider_call
       (trace_of (chat_try (example_env (Some ''key'') search_while_offered) ''q'' []
          (normalize_options (LegacyForceSearch False))))
     = [True, False, True, False, True, False, True, False, True, False, True, False, True]"
proof -
  let ?env = "example_env (Some ''key'') search_while_offered"
  note budget = iterations_within_budget
    [where options = "normalize_options (LegacyForceSearch False)"
       and arg = "LegacyForceSearch False" and env = ?env and message = "''q''" and hist = "[]"]
  have limit: "maxSteps (normalize_options (LegacyForceSearch False)) = 6"
    using budget by (simp add: isDeepResearch_def normalize_options_def)
  have run: "\<exists>r. chat ?env ''q'' [] (LegacyForceSearch False) = Inr r
      \<and> totalSteps r = 6 \<and> totalSearches r = 6"
    by (simp add: run_defs example_defs)
  then obtain r where r: "chat ?env ''q'' [] (LegacyForceSearch False) = Inr r"
    "totalSteps r = 6" "totalSearches r = 6" by auto
  from budget r(1) have le: "totalSteps r \<le> maxSteps (normalize_options (LegacyForceSearch False))"
    by blast
  have tr: "map is_provider_call
       (trace_of (chat_try ?env ''q'' [] (normalize_options (LegacyForceSearch False))))
     = [True, False, True, False, True, False, True, False, True, False, True, False, True]"
    by (simp add: run_defs example_defs)
  from limit r le tr show ?thesis by auto
qed

text \<open>
  Claim C3, as the code has it. With a non-empty context the local tool list is empty
  and the local \<open>toolChoice\<close> is \<^verbatim>\<open>'none'\<close>, but every request sent to the provider, in a
  run that returns as in a run that fails, omits both \<^verbatim>\<open>tools\<close> and \<^verbatim>\<open>tool_choice\<close>. No
  tool is executed provided the provider returns no tool call to a request that offers
  no tools: then, in a run that returns, the search counter stays 0, no step is
  recorded and no source is collected, and in every run, also one that ends in the
  outer catch because the provider answered with an error, the trace holds provider
  requests only.
\<close>

theorem context_omits_tools:
  assumes "context_str options \<noteq> []"
  shows "tools options = [] \<and> toolChoice options = ChoiceNone
     \<and> (\<forall>st. req_tools (callOptions options st) = None
             \<and> req_tool_choice (callOptions options st) = None)
     \<and> list_all tool_less (trace_of (chat_try env message hist options))
     \<and> ((\<forall>tr req m. req_tools req = None \<longrightarrow> completions_create env tr req = Inr m
             \<longrightarrow> tool_free m)
          \<longrightarrow> (\<forall>st. chat_try env message hist options = Inr st \<longrightarrow>
                totalSearchCount st = 0 \<and> searchSteps st = [] \<and> allSources st = []
                \<and> list_all is_provider_call (trace st))
            \<and> (\<forall>e tr. chat_try env message hist options = Inl (e, tr) \<longrightarrow>
                list_all is_provider_call tr)
            \<and> list_all is_provider_call (trace_of (chat_try env message hist options)))"
proof -
  have a: "tools options = [] \<and> toolChoice options = ChoiceNone"
    using assms by (simp add: tools_def toolChoice_def)
  have b: "req_tools (callOptions options st) = None
      \<and> req_tool_choice (callOptions options st) = None" for st
    using a by (simp add: callOptions_def)
  have c: "totalSearchCount st = 0 \<and> searchSteps st = [] \<and> allSources st = []
      \<and> list_all is_provider_call (trace st)"
    if "\<forall>tr req m. req_tools req = None \<longrightarrow> completions_create env tr req = Inr m \<longrightarrow> tool_free m"
      and "chat_try env message hist options = Inr st" for st
    using context_no_tools_run [OF assms _ that(2)] that(1) by (simp add: untouched_def)
  have d: "list_all is_provider_call tr"
    if "\<forall>tr req m. req_tools req = None \<longrightarrow> completions_create env tr req = Inr m \<longrightarrow> tool_free m"
      and "chat_try env message hist options = Inl (e, tr)" for e tr
    using context_no_tools_failing_run [OF assms _ that(2)] that(1) by simp
  have e: "list_all is_provider_call (trace_of (chat_try env message hist options))"
    if enf: "\<forall>tr req m. req_tools req = None \<longrightarrow> completions_create env tr req = Inr m
        \<longrightarrow> tool_free m"
  proof (cases "chat_try env message hist options")
    case (Inr st)
    with c [OF enf Inr] show ?thesis by simp
  next
    case (Inl x)
    then obtain e' tr' where x: "chat_try env message hist options = Inl (e', tr')"
      by (cases x) auto
    with d [OF enf x] show ?thesis by simp
  qed
  from a b c d e context_trace_tool_less [OF assms] show ?thesis by blast
qed

text \<open>
  The theorem at two runs with a context: one whose provider answers directly, and one
  whose provider rejects every request as a failed tool invocation, which ends in the
  outer catch with the one request on its trace.
\<close>

theorem context_omits_tools_example:
  "context_str context_options \<noteq> []
   \<and> tool_free answer_msg
   \<and> list_all tool_less
       (trace_of (chat_try (example_env (Some ''key'') always_answer) ''q'' [] context_options))
   \<and> (\<exists>st. chat_try (example_env (Some ''key'') always_answer) ''q'' [] context_options = Inr st
        \<and> totalSearchCount st = 0 \<and> searchSteps st = [] \<and> map is_provider_call (trace st) = [True])
   \<and> chat_try (example_env (Some ''key'') (always_reject ''short'')) ''q'' [] context_options
     = Inl (ApiError (rejected_tool_use ''short''),
            [ProviderCall (first_request (example_env (Some ''key'') (always_reject ''short''))
                ''q'' [] context_options)])
   \<and> list_all is_provider_call
       (trace_of (chat_try (example_env (Some ''key'') (always_reject ''short'')) ''q'' []
          context_options))
   \<and> chat (example_env (Some ''key'') (always_reject ''short'')) ''q'' []
       (OptionsObject context_options)
     = Inl \<lparr>failure_error = ''AI service temporarily unavailable.'', failure_code = ''GROQ_ERROR''\<rparr>"
proof -
  let ?env = "example_env (Some ''key'') always_answer"
  let ?rej = "example_env (Some ''key'') (always_reject ''short'')"
  have ctx: "context_str context_options \<noteq> []"
    by (simp add: context_str_def context_options_def)
  note omitted = context_omits_tools [OF ctx, where env = ?env and message = "''q''" and hist = "[]"]
  note rejected = context_omits_tools [OF ctx, where env = ?rej and message = "''q''" and hist = "[]"]
  have free: "tool_free answer_msg" by (simp add: tool_free_def answer_msg_def)
  have enforced: "\<forall>tr req m. req_tools req = None \<longrightarrow> completions_create ?env tr req = Inr m
      \<longrightarrow> tool_free m"
    using free by (auto simp: example_env_def always_answer_def)
  have never: "\<forall>tr req m. req_tools req = None \<longrightarrow> completions_create ?rej tr req = Inr m
      \<longrightarrow> tool_free m"
    by (simp add: example_env_def always_reject_def)
  have run: "\<exists>st. chat_try ?env ''q'' [] context_options = Inr st
      \<and> map is_provider_call (trace st) = [True]"
    by (simp add: run_defs example_defs)
  then obtain st where st: "chat_try ?env ''q'' [] context_options = Inr st"
    "map is_provider_call (trace st) = [True]" by auto
  from omitted enforced st(1) have none: "totalSearchCount st = 0 \<and> searchSteps st = []" by blast
  have failing: "chat_try ?rej ''q'' [] context_options
      = Inl (ApiError (rejected_tool_use ''short''),
             [ProviderCall (first_request ?rej ''q'' [] context_options)])"
    by (simp add: run_defs example_defs rejected_tool_use_def always_reject_def)
  from rejected never failing have posts: "list_all is_provider_call
      (trace_of (chat_try ?rej ''q'' [] context_options))" by blast
  have surfaced: "chat ?rej ''q'' [] (OptionsObject context_options)
      = Inl \<lparr>failure_error = ''AI service temporarily unavailable.'', failure_code = ''GROQ_ERROR''\<rparr>"
    by (simp add: run_defs example_defs rejected_tool_use_def always_reject_def)
  have first: "context_str context_options \<noteq> [] \<and> tool_free answer_msg
      \<and> list_all tool_less (trace_of (chat_try ?env ''q'' [] context_options))
      \<and> (\<exists>st. chat_try ?env ''q'' [] context_options = Inr st
        \<and> totalSearchCount st = 0 \<and> searchSteps st = []
        \<and> map is_provider_call (trace st) = [True])"
    using st none omitted ctx free by auto
  from first failing posts surfaced show ?thesis by simp
qed

text \<open>
  The claim as stated fails: in a run with a context the first request carries no
  \<^verbatim>\<open>tool_choice\<close> at all (so not \<^verbatim>\<open>'none'\<close>), and when the provider nevertheless returns
  a \<^verbatim>\<open>web_search\<close> call the orchestrator executes it: the search is posted, counted and
  its source returned.
\<close>

theorem context_run_executes_requested_search:
  "context_str context_options \<noteq> []
   \<and> req_tools (first_request (example_env (Some ''key'') (calls_then_answer [search_call]))
        ''q'' [] context_options) = None
   \<and> req_tool_choice (first_request (example_env (Some ''key'') (calls_then_answer [search_call]))
        ''q'' [] context_options) = None
   \<and> req_tool_choice (first_request (example_env (Some ''key'') (calls_then_answer [search_call]))
        ''q'' [] context_options) \<noteq> Some ChoiceNone
   \<and> chat (example_env (Some ''key'') (calls_then_answer [search_call])) ''q'' []
       (OptionsObject context_options)
     = Inr \<lparr>response = Some ''Four.'', searchPerformed = True, sources = [example_source],
            result_searchSteps =
              [\<lparr>step_id = SearchStepId 1 1, step_type = Searching,
                 step_query = Some (JStr ''isabelle''), step_topic = Some (JStr ''general''),
                 depth = Some (JStr ''basic''), urls = None, status = Done,
                 resultCount = Some 1\<rparr>],
            totalSteps = 2, totalSearches = 1\<rparr>
   \<and> map is_provider_call
       (trace_of (chat_try (example_env (Some ''key'') (calls_then_answer [search_call])) ''q'' []
          context_options)) = [True, False, True]"
  by (simp add: run_defs example_defs)

text \<open>
  Claim C4, as the code has it. A tool call whose arguments do not parse yields the
  tool-result message \<^verbatim>\<open>Invalid JSON arguments.\<close> tagged with the call's id and leaves the
  run state as it was: the search counter is not incremented and no step is recorded.
  The other calls of the round are processed as without it, and a round in which no
  call parses ends in the next iteration with the error messages appended to the
  transcript.
\<close>

theorem unparsable_arguments_become_tool_message:
  assumes "JSON_parse env (function_arguments toolCall) = None"
  shows "processToolCall env options st toolCall = Inr (st, invalid_json_msg toolCall)
     \<and> processToolCalls env options st (toolCall # rest) =
         (case processToolCalls env options st rest of
            Inl e \<Rightarrow> Inl e
          | Inr (st2, rs) \<Rightarrow> Inr (st2, invalid_json_msg toolCall # rs))
     \<and> (\<forall>m. completions_create env (trace st) (callOptions options st) = Inr m
           \<longrightarrow> tool_calls m = Some (toolCall # rest)
           \<longrightarrow> list_all (\<lambda>c. JSON_parse env (function_arguments c) = None) rest
           \<longrightarrow> loop_body env options st =
                 Continue (st\<lparr>messages := messages st
                               @ AssistantMsg m # map invalid_json_msg (toolCall # rest),
                             trace := trace st @ [ProviderCall (callOptions options st)]\<rparr>))"
proof -
  have one: "processToolCall env options st toolCall = Inr (st, invalid_json_msg toolCall)" for st
    using assms by (simp add: processToolCall_def invalid_json_msg_def)
  have round: "processToolCalls env options st (toolCall # rest) =
      (case processToolCalls env options st rest of
         Inl e \<Rightarrow> Inl e
       | Inr (st2, rs) \<Rightarrow> Inr (st2, invalid_json_msg toolCall # rs))"
    by (simp add: one)
  have body: "loop_body env options st =
      Continue (st\<lparr>messages := messages st @ AssistantMsg m # map invalid_json_msg (toolCall # rest),
                  trace := trace st @ [ProviderCall (callOptions options st)]\<rparr>)"
    if reply: "completions_create env (trace st) (callOptions options st) = Inr m"
      and calls: "tool_calls m = Some (toolCall # rest)"
      and rest: "list_all (\<lambda>c. JSON_parse env (function_arguments c) = None) rest" for m
  proof -
    have "list_all (\<lambda>c. JSON_parse env (function_arguments c) = None) (toolCall # rest)"
      using assms rest by simp
    from unparsable_round [OF this] reply calls show ?thesis
      by (simp add: loop_body_def Let_def del: processToolCalls.simps)
  qed
  from one round body show ?thesis by blast
qed

text \<open>The theorem at a \<^verbatim>\<open>web_search\<close> call whose argument text is cut short.\<close>

theorem unparsable_arguments_example:
  "JSON_parse (example_env (Some ''key'') (calls_then_answer [broken_call]))
       (function_arguments broken_call) = None
   \<and> processToolCall (example_env (Some ''key'') (calls_then_answer [broken_call])) no_options
       (initial_state (example_env (Some ''key'') (calls_then_answer [broken_call])) ''q'' []
          no_options)
       broken_call
     = Inr (initial_state (example_env (Some ''key'') (calls_then_answer [broken_call])) ''q'' []
              no_options,
            ToolMsg ''call_1'' ''Invalid JSON arguments.'')"
proof -
  let ?env = "example_env (Some ''key'') (calls_then_answer [broken_call])"
  have bad: "JSON_parse ?env (function_arguments broken_call) = None"
    by (simp add: example_env_def example_parse_def broken_call_def)
  from unparsable_arguments_become_tool_message [OF bad, of no_options
      "initial_state ?env ''q'' [] no_options" "[]"] bad
  show ?thesis by (simp add: invalid_json_msg_def broken_call_def)
qed

text \<open>
  The claim as stated fails: a run whose only tool call has unparsable arguments
  continues to an answer, and returns \<open>totalSearches = 0\<close> and an empty step list, so
  the attempt was not counted and no step with status error was recorded.
\<close>

theorem unparsable_arguments_not_counted:
  "JSON_parse (example_env (Some ''key'') (calls_then_answer [broken_call]))
       (function_arguments broken_call) = None
   \<and> chat (example_env (Some ''key'') (calls_then_answer [broken_call])) ''q'' []
       (OptionsObject no_options)
     = Inr \<lparr>response = Some ''Four.'', searchPerformed = False, sources = [],
            result_searchSteps = [], totalSteps = 2, totalSearches = 0\<rparr>"
  by (simp add: run_defs example_defs)

text \<open>
  Claim C5, as the code has it. When a completion request of the loop fails: if the
  failure is a rejected tool invocation with a recoverable text of more than 20
  characters, that text becomes the answer and nothing else is requested. Otherwise,
  if the search counter is positive (a \<^verbatim>\<open>web_search\<close> call was attempted, successful or
  not), one more completion request over the transcript, without tools and at
  temperature 0.7, is made; its reply becomes the answer, and if it fails too the
  first error is thrown. If the search counter is 0 the error is thrown at once and no
  further request is made.
\<close>

theorem provider_failure_recovery:
  assumes enter: "iteration st < maxSteps options"
    and fail: "completions_create env (trace st)
        (callOptions options (st\<lparr>iteration := iteration st + 1\<rparr>)) = Inl apiError"
  shows "(\<forall>t. salvaged_text env apiError = Some t \<longrightarrow>
        agentic_loop env options st =
          Inr (st\<lparr>iteration := iteration st + 1,
                  lastAssistantMessage := Some \<lparr>content = Some t, tool_calls = None\<rparr>,
                  trace := trace st
                    @ [ProviderCall (callOptions options (st\<lparr>iteration := iteration st + 1\<rparr>))]\<rparr>))
     \<and> (salvaged_text env apiError = None \<longrightarrow> 0 < totalSearchCount st \<longrightarrow>
        agentic_loop env options st =
          (case completions_create env
                  (trace st @ [ProviderCall (callOptions options (st\<lparr>iteration := iteration st + 1\<rparr>))])
                  (plain_request (messages st) (7 / 10)) of
             Inr synth \<Rightarrow>
               Inr (st\<lparr>iteration := iteration st + 1,
                       lastAssistantMessage := Some synth,
                       trace := trace st
                         @ [ProviderCall (callOptions options (st\<lparr>iteration := iteration st + 1\<rparr>)),
                            ProviderCall (plain_request (messages st) (7 / 10))]\<rparr>)
           | Inl e \<Rightarrow>
               Inl (ApiError apiError,
                    trace st
                      @ [ProviderCall (callOptions options (st\<lparr>iteration := iteration st + 1\<rparr>)),
                         ProviderCall (plain_request (messages st) (7 / 10))])))
     \<and> (salvaged_text env apiError = None \<longrightarrow> totalSearchCount st = 0 \<longrightarrow>
        agentic_loop env options st =
          Inl (ApiError apiError,
               trace st
                 @ [ProviderCall (callOptions options (st\<lparr>iteration := iteration st + 1\<rparr>))]))"
  using enter fail
  by (auto simp: agentic_loop_enter loop_body_def Let_def split: sum.splits)

text \<open>
  The theorem at a provider that always fails with status 500 (counter 0: the error is
  thrown after one request), at a state with one counted search whose provider
  fails once and then answers (the synthesis request is made and answers), and at a
  provider that rejects a tool invocation with a generated text of 24 characters (the
  text becomes the answer after one request).
\<close>

theorem provider_failure_recovery_example:
  "iteration (initial_state (example_env (Some ''key'') (always_fail 500)) ''q'' [] no_options)
     < maxSteps no_options
   \<and> salvaged_text (example_env (Some ''key'') (always_fail 500)) (server_error 500) = None
   \<and> agentic_loop (example_env (Some ''key'') (always_fail 500)) no_options
       (initial_state (example_env (Some ''key'') (always_fail 500)) ''q'' [] no_options)
     = Inl (ApiError (server_error 500),
            [ProviderCall (first_request (example_env (Some ''key'') (always_fail 500)) ''q'' []
                no_options)])
   \<and> agentic_loop (example_env (Some ''key'') (calls_fail_answer [search_call])) no_options
       ((initial_state (example_env (Some ''key'') (calls_fail_answer [search_call])) ''q'' []
           no_options)
          \<lparr>iteration := 1, totalSearchCount := 1,
            trace := [ProviderCall (first_request
               (example_env (Some ''key'') (calls_fail_answer [search_call])) ''q'' [] no_options)]\<rparr>)
     = Inr ((initial_state (example_env (Some ''key'') (calls_fail_answer [search_call])) ''q'' []
           no_options)
          \<lparr>iteration := 2, totalSearchCount := 1, lastAssistantMessage := Some answer_msg,
            trace := [ProviderCall (first_request
                 (example_env (Some ''key'') (calls_fail_answer [search_call])) ''q'' [] no_options),
               ProviderCall (callOptions no_options
                 ((initial_state (example_env (Some ''key'') (calls_fail_answer [search_call]))
                     ''q'' [] no_options)\<lparr>iteration := 2\<rparr>)),
               ProviderCall (plain_request
                 (messages (initial_state
                    (example_env (Some ''key'') (calls_fail_answer [search_call])) ''q'' []
                    no_options))
                 (7 / 10))]\<rparr>)
   \<and> salvaged_text (example_env (Some ''key'') (always_reject ''The answer is forty-two.''))
       (rejected_tool_use ''The answer is forty-two.'') = Some ''The answer is forty-two.''
   \<and> agentic_loop (example_env (Some ''key'') (always_reject ''The answer is forty-two.''))
       no_options
       (initial_state (example_env (Some ''key'') (always_reject ''The answer is forty-two.''))
          ''q'' [] no_options)
     = Inr ((initial_state (example_env (Some ''key'') (always_reject ''The answer is forty-two.''))
               ''q'' [] no_options)
          \<lparr>iteration := 1,
            lastAssistantMessage :=
              Some \<lparr>content = Some ''The answer is forty-two.'', tool_calls = None\<rparr>,
            trace := [ProviderCall (first_request
               (example_env (Some ''key'') (always_reject ''The answer is forty-two.''))
               ''q'' [] no_options)]\<rparr>)"
proof -
  let ?e0 = "example_env (Some ''key'') (always_fail 500)"
  let ?s0 = "initial_state ?e0 ''q'' [] no_options"
  let ?e1 = "example_env (Some ''key'') (calls_fail_answer [search_call])"
  let ?s1 = "(initial_state ?e1 ''q'' [] no_options)
      \<lparr>iteration := 1, totalSearchCount := 1,
        trace := [ProviderCall (first_request ?e1 ''q'' [] no_options)]\<rparr>"
  have enter0: "iteration ?s0 < maxSteps no_options"
    by (simp add: initial_state_def maxSteps_def isDeepResearch_def no_options_def
        MAX_AGENTIC_STEPS_def)
  have fail0: "completions_create ?e0 (trace ?s0)
      (callOptions no_options (?s0\<lparr>iteration := iteration ?s0 + 1\<rparr>)) = Inl (server_error 500)"
    by (simp add: example_env_def always_fail_def)
  have none: "salvaged_text env (server_error 500) = None" for env
    by (simp add: salvaged_text_def is_tool_use_failed_def server_error_def or_status_def)
  have zero: "totalSearchCount ?s0 = 0" by (simp add: initial_state_def)
  from provider_failure_recovery [OF enter0 fail0] none zero
  have first: "agentic_loop ?e0 no_options ?s0 =
      Inl (ApiError (server_error 500),
           [ProviderCall (first_request ?e0 ''q'' [] no_options)])"
    by (simp add: first_request_def initial_state_def)
  have enter1: "iteration ?s1 < maxSteps no_options"
    by (simp add: maxSteps_def isDeepResearch_def no_options_def MAX_AGENTIC_STEPS_def)
  have fail1: "completions_create ?e1 (trace ?s1)
      (callOptions no_options (?s1\<lparr>iteration := iteration ?s1 + 1\<rparr>)) = Inl (server_error 500)"
    by (simp add: example_env_def calls_fail_answer_def provider_calls_def)
  have synth: "completions_create ?e1
      (trace ?s1 @ [ProviderCall (callOptions no_options (?s1\<lparr>iteration := iteration ?s1 + 1\<rparr>))])
      (plain_request (messages ?s1) (7 / 10)) = Inr answer_msg"
    by (simp add: example_env_def calls_fail_answer_def provider_calls_def)
  from provider_failure_recovery [OF enter1 fail1] none synth
  have second: "agentic_loop ?e1 no_options ?s1 =
      Inr (?s1\<lparr>iteration := iteration ?s1 + 1, lastAssistantMessage := Some answer_msg,
              trace := trace ?s1
                @ [ProviderCall (callOptions no_options (?s1\<lparr>iteration := iteration ?s1 + 1\<rparr>)),
                   ProviderCall (plain_request (messages ?s1) (7 / 10))]\<rparr>)"
    by simp
  have same: "callOptions no_options (?s1\<lparr>iteration := iteration ?s1 + 1\<rparr>)
      = callOptions no_options ((initial_state ?e1 ''q'' [] no_options)\<lparr>iteration := 2\<rparr>)"
    by (simp add: callOptions_def initial_state_def)
  let ?e2 = "example_env (Some ''key'') (always_reject ''The answer is forty-two.'')"
  let ?s2 = "initial_state ?e2 ''q'' [] no_options"
  have enter2: "iteration ?s2 < maxSteps no_options"
    by (simp add: initial_state_def maxSteps_def isDeepResearch_def no_options_def
        MAX_AGENTIC_STEPS_def)
  have fail2: "completions_create ?e2 (trace ?s2)
      (callOptions no_options (?s2\<lparr>iteration := iteration ?s2 + 1\<rparr>))
      = Inl (rejected_tool_use ''The answer is forty-two.'')"
    by (simp add: example_env_def always_reject_def)
  have salvage: "salvaged_text ?e2 (rejected_tool_use ''The answer is forty-two.'')
      = Some ''The answer is forty-two.''"
    by (simp add: salvaged_text_def is_tool_use_failed_def finalFailedText_def errorBody_def
        rejected_tool_use_def or_status_def or_str_def falsy_str_def Let_def)
  from provider_failure_recovery [OF enter2 fail2] salvage
  have third: "agentic_loop ?e2 no_options ?s2 =
      Inr (?s2\<lparr>iteration := iteration ?s2 + 1,
              lastAssistantMessage :=
                Some \<lparr>content = Some ''The answer is forty-two.'', tool_calls = None\<rparr>,
              trace := trace ?s2
                @ [ProviderCall (callOptions no_options (?s2\<lparr>iteration := iteration ?s2 + 1\<rparr>))]\<rparr>)"
    by blast
  have third': "agentic_loop ?e2 no_options ?s2 =
      Inr (?s2\<lparr>iteration := 1,
              lastAssistantMessage :=
                Some \<lparr>content = Some ''The answer is forty-two.'', tool_calls = None\<rparr>,
              trace := [ProviderCall (first_request ?e2 ''q'' [] no_options)]\<rparr>)"
    unfolding third by (simp add: first_request_def initial_state_def)
  have old: "iteration (initial_state (example_env (Some ''key'') (always_fail 500)) ''q'' [] no_options)
       < maxSteps no_options
     \<and> salvaged_text (example_env (Some ''key'') (always_fail 500)) (server_error 500) = None
     \<and> agentic_loop (example_env (Some ''key'') (always_fail 500)) no_options
         (initial_state (example_env (Some ''key'') (always_fail 500)) ''q'' [] no_options)
       = Inl (ApiError (server_error 500),
              [ProviderCall (first_request (example_env (Some ''key'') (always_fail 500)) ''q'' []
                  no_options)])
     \<and> agentic_loop ?e1 no_options ?s1
       = Inr ((initial_state ?e1 ''q'' [] no_options)
            \<lparr>iteration := 2, totalSearchCount := 1, lastAssistantMessage := Some answer_msg,
              trace := [ProviderCall (first_request ?e1 ''q'' [] no_options),
                 ProviderCall (callOptions no_options
                   ((initial_state ?e1 ''q'' [] no_options)\<lparr>iteration := 2\<rparr>)),
                 ProviderCall (plain_request (messages (initial_state ?e1 ''q'' [] no_options))
                   (7 / 10))]\<rparr>)"
    using enter0 none first second same by (simp add: initial_state_def)
  from old salvage third' show ?thesis by simp
qed

text \<open>
  The claim as stated fails in both halves. After a successful \<^verbatim>\<open>browser_extract\<close> call
  (its result is the last message of the failing request) a provider failure is
  returned as an error and the failing request is the last event of the trace: no
  synthesis is attempted. After a \<^verbatim>\<open>web_search\<close> call that failed (no API key, step
  status error) a provider failure is followed by a third provider request, without
  tools and at temperature 0.7, whose reply is returned as the answer.
\<close>

theorem recovery_gate_is_the_search_counter:
  "chat (example_env (Some ''key'') (calls_then_fail [extract_call])) ''q'' []
       (OptionsObject deep_options)
     = Inl \<lparr>failure_error = ''AI service temporarily unavailable.'', failure_code = ''GROQ_ERROR''\<rparr>
   \<and> map is_provider_call
       (trace_of (chat_try (example_env (Some ''key'') (calls_then_fail [extract_call])) ''q'' []
          deep_options)) = [True, False, True]
   \<and> map_option (last \<circ> req_messages)
       (request_of (last (trace_of
          (chat_try (example_env (Some ''key'') (calls_then_fail [extract_call])) ''q'' []
             deep_options))))
     = Some (ToolMsg ''call_2''
         (''Extracted Content:'' @ nl @ ''URL: https://a.example/x'' @ nl @ ''CONTENT: full text''))
   \<and> chat (example_env None (calls_fail_answer [search_call])) ''q'' [] (OptionsObject no_options)
     = Inr \<lparr>response = Some ''Four.'', searchPerformed = True, sources = [],
            result_searchSteps =
              [\<lparr>step_id = SearchStepId 1 1, step_type = Searching,
                 step_query = Some (JStr ''isabelle''), step_topic = Some (JStr ''general''),
                 depth = Some (JStr ''basic''), urls = None, status = Failed,
                 resultCount = Some 0\<rparr>],
            totalSteps = 2, totalSearches = 1\<rparr>
   \<and> map is_provider_call
       (trace_of (chat_try (example_env None (calls_fail_answer [search_call])) ''q'' []
          no_options)) = [True, True, True]
   \<and> map_option (\<lambda>r. (req_tools r, temperature r))
       (request_of (last (trace_of
          (chat_try (example_env None (calls_fail_answer [search_call])) ''q'' [] no_options))))
     = Some (None, 7 / 10)"
  by (simp add: run_defs example_defs)

text \<open>
  Claim C6. When the first completion request of a run fails with status 429, \<open>chat\<close>
  returns the failure with code \<^verbatim>\<open>RATE_LIMIT\<close> and message \<^verbatim>\<open>Rate limit exceeded.\<close>, and the
  trace of the run is that one request: no synthesis request is made.
\<close>

theorem rate_limit_on_first_call:
  assumes "completions_create env [] (first_request env message hist (normalize_options arg))
      = Inl apiError"
    and "status_of (ApiError apiError) = Some 429"
  shows "chat env message hist arg =
       Inl \<lparr>failure_error = ''Rate limit exceeded.'', failure_code = ''RATE_LIMIT''\<rparr>
     \<and> chat_try env message hist (normalize_options arg) =
       Inl (ApiError apiError,
            [ProviderCall (first_request env message hist (normalize_options arg))])"
proof -
  let ?o = "normalize_options arg"
  let ?s0 = "initial_state env message hist ?o"
  let ?s1 = "?s0\<lparr>iteration := 1\<rparr>"
  have reply: "completions_create env (trace ?s1) (callOptions ?o ?s1) = Inl apiError"
    using assms(1) by (simp add: first_request_def initial_state_def)
  have "\<not> is_tool_use_failed apiError"
    using assms(2) by (simp add: is_tool_use_failed_def status_of_def)
  then have "salvaged_text env apiError = None" by (simp add: salvaged_text_def)
  with reply have "loop_body env ?o ?s1 =
      Throw (ApiError apiError) (trace ?s1 @ [ProviderCall (callOptions ?o ?s1)])"
    by (simp add: loop_body_def Let_def initial_state_def)
  moreover have "iteration ?s0 < maxSteps ?o" "?s0\<lparr>iteration := iteration ?s0 + 1\<rparr> = ?s1"
    using maxSteps_pos by (simp_all add: initial_state_def)
  ultimately have "agentic_loop env ?o ?s0 =
      Inl (ApiError apiError, trace ?s1 @ [ProviderCall (callOptions ?o ?s1)])"
    by (simp add: agentic_loop_enter)
  then have "chat_try env message hist ?o =
      Inl (ApiError apiError, [ProviderCall (first_request env message hist ?o)])"
    by (simp add: chat_try_def first_request_def initial_state_def)
  then show ?thesis using assms(2) by (simp add: chat_def Let_def handleError_def)
qed

text \<open>The theorem at a provider that always fails with status 429.\<close>

theorem rate_limit_example:
  "status_of (ApiError (server_error 429)) = Some 429
   \<and> chat (example_env (Some ''key'') (always_fail 429)) ''q'' [] (LegacyForceSearch False)
     = Inl \<lparr>failure_error = ''Rate limit exceeded.'', failure_code = ''RATE_LIMIT''\<rparr>
   \<and> map is_provider_call
       (trace_of (chat_try (example_env (Some ''key'') (always_fail 429)) ''q'' []
          (normalize_options (LegacyForceSearch False)))) = [True]"
  using rate_limit_on_first_call
    [where arg = "LegacyForceSearch False" and env = "example_env (Some ''key'') (always_fail 429)"
       and message = "''q''" and hist = "[]" and apiError = "server_error 429"]
  by (simp add: run_defs example_defs)

text \<open>
  Claim C7. When deep-research mode is off and the reply to the first request carries
  no tool call, \<open>chat\<close> returns that reply with \<open>totalSteps = 1\<close>, no step, no source,
  \<open>searchPerformed = False\<close> and \<open>totalSearches = 0\<close>.
\<close>

theorem direct_answer_single_iteration:
  assumes "\<not> isDeepResearch (normalize_options arg)"
    and "completions_create env [] (first_request env message hist (normalize_options arg)) = Inr m"
    and "tool_free m"
  shows "chat env message hist arg =
     Inr \<lparr>response = content m, searchPerformed = False, sources = [],
          result_searchSteps = [], totalSteps = 1, totalSearches = 0\<rparr>"
proof -
  let ?o = "normalize_options arg"
  let ?s0 = "initial_state env message hist ?o"
  let ?s1 = "?s0\<lparr>iteration := 1\<rparr>"
  have reply: "completions_create env (trace ?s1) (callOptions ?o ?s1) = Inr m"
    using assms(2) by (simp add: first_request_def initial_state_def)
  have "loop_body env ?o ?s1 =
      Break (?s1\<lparr>lastAssistantMessage := Some m,
                 trace := trace ?s1 @ [ProviderCall (callOptions ?o ?s1)]\<rparr>)"
    using loop_body_tool_free [OF reply assms(3)] assms(1) by simp
  moreover have "iteration ?s0 < maxSteps ?o" "?s0\<lparr>iteration := iteration ?s0 + 1\<rparr> = ?s1"
    using maxSteps_pos by (simp_all add: initial_state_def)
  ultimately have "agentic_loop env ?o ?s0 =
      Inr (?s1\<lparr>lastAssistantMessage := Some m,
                 trace := trace ?s1 @ [ProviderCall (callOptions ?o ?s1)]\<rparr>)"
    by (simp add: agentic_loop_enter)
  then show ?thesis
    by (simp add: chat_def chat_try_def Let_def initial_state_def deduplicateSources_def)
qed

text \<open>The theorem at the question \<^verbatim>\<open>What is 2 + 2?\<close> with a provider that answers directly.\<close>

theorem direct_answer_example:
  "\<not> isDeepResearch (normalize_options (OptionsObject no_options))
   \<and> tool_free answer_msg
   \<and> chat (example_env (Some ''key'') always_answer) ''What is 2 + 2?'' [] (OptionsObject no_options)
     = Inr \<lparr>response = Some ''Four.'', searchPerformed = False, sources = [],
            result_searchSteps = [], totalSteps = 1, totalSearches = 0\<rparr>"
  using direct_answer_single_iteration
    [where arg = "OptionsObject no_options" and env = "example_env (Some ''key'') always_answer"
       and message = "''What is 2 + 2?''" and hist = "[]" and m = answer_msg]
  by (simp add: run_defs example_defs tool_free_def)



text \<open>
  Claim C9. For every result \<open>chat\<close> returns, \<open>totalSearches\<close> is the number of
  \<^verbatim>\<open>web_search\<close> calls with parsed arguments among the assistant messages the run appended
  to the transcript, \<open>searchPerformed\<close> holds exactly when that number is positive, and
  the sources are the deduplicated \<open>allSources\<close>. A tool call of any other name,
  \<^verbatim>\<open>browser_extract\<close> included, leaves the search counter (the number the forced
  continuation compares with 4) and \<open>allSources\<close> unchanged; every processed call adds
  1 to the counter exactly when it is a \<^verbatim>\<open>web_search\<close> call whose arguments parsed.
\<close>

theorem only_web_search_is_counted:
  "(\<forall>r. chat env message hist arg = Inr r \<longrightarrow>
      (\<exists>st added. chat_try env message hist (normalize_options arg) = Inr st
         \<and> messages st = messages (initial_state env message hist (normalize_options arg)) @ added
         \<and> totalSearches r = web_search_calls env added
         \<and> searchPerformed r = (0 < web_search_calls env added)
         \<and> sources r = deduplicateSources (allSources st)))
   \<and> (\<forall>st st' toolCall r. function_name toolCall \<noteq> ''web_search''
         \<longrightarrow> processToolCall env options st toolCall = Inr (st', r)
         \<longrightarrow> totalSearchCount st' = totalSearchCount st \<and> allSources st' = allSources st)
   \<and> (\<forall>st st' toolCall r. processToolCall env options st toolCall = Inr (st', r)
         \<longrightarrow> totalSearchCount st' = totalSearchCount st + (if counted_call env toolCall then 1 else 0))"
proof -
  have a: "\<exists>st added. chat_try env message hist (normalize_options arg) = Inr st
         \<and> messages st = messages (initial_state env message hist (normalize_options arg)) @ added
         \<and> totalSearches r = web_search_calls env added
         \<and> searchPerformed r = (0 < web_search_calls env added)
         \<and> sources r = deduplicateSources (allSources st)"
    if "chat env message hist arg = Inr r" for r
  proof -
    from chat_Inr [OF that] obtain st where
      t: "chat_try env message hist (normalize_options arg) = Inr st" and
      r: "searchPerformed r = (totalSearchCount st > 0)"
        "sources r = deduplicateSources (allSources st)"
        "totalSearches r = totalSearchCount st"
      by auto
    from chat_try_progress [OF t] obtain added where
      "messages st = messages (initial_state env message hist (normalize_options arg)) @ added"
      "totalSearchCount st = web_search_calls env added" by blast
    with t r show ?thesis by (intro exI [of _ st] exI [of _ added]) simp
  qed
  from a processToolCall_other_tools processToolCall_Inr show ?thesis by blast
qed

text \<open>
  The theorem at a round of three calls: a search, an extraction and a search with
  unparsable arguments. One call is counted, two steps are recorded.
\<close>

theorem only_web_search_is_counted_example:
  "(\<exists>r. chat (example_env (Some ''key'') (calls_then_answer [search_call, extract_call, broken_call]))
          ''q'' [] (OptionsObject no_options) = Inr r
        \<and> totalSearches r = 1 \<and> searchPerformed r \<and> sources r = [example_source]
        \<and> map step_type (result_searchSteps r) = [Searching, Reading])
   \<and> web_search_calls
       (example_env (Some ''key'') (calls_then_answer [search_call, extract_call, broken_call]))
       [AssistantMsg (calls_msg [search_call, extract_call, broken_call]),
        ToolMsg ''call_1'' ''Title: A'',
        ToolMsg ''call_2''
          (''Extracted Content:'' @ nl @ ''URL: https://a.example/x'' @ nl @ ''CONTENT: full text''),
        ToolMsg ''call_1'' ''Invalid JSON arguments.''] = 1"
proof -
  let ?env = "example_env (Some ''key'') (calls_then_answer [search_call, extract_call, broken_call])"
  note counted = only_web_search_is_counted
    [where arg = "OptionsObject no_options" and env = ?env and message = "''q''" and hist = "[]"
       and options = no_options]
  have run: "\<exists>r. chat ?env ''q'' [] (OptionsObject no_options) = Inr r
      \<and> totalSearches r = 1 \<and> searchPerformed r \<and> sources r = [example_source]
      \<and> map step_type (result_searchSteps r) = [Searching, Reading]"
    by (simp add: run_defs example_defs)
  then obtain r where r: "chat ?env ''q'' [] (OptionsObject no_options) = Inr r"
    "totalSearches r = 1" by auto
  have added: "chat_try ?env ''q'' [] (normalize_options (OptionsObject no_options)) = Inr st \<Longrightarrow>
      messages st = messages (initial_state ?env ''q'' [] (normalize_options (OptionsObject no_options)))
        @ [AssistantMsg (calls_msg [search_call, extract_call, broken_call]),
           ToolMsg ''call_1'' ''Title: A'',
           ToolMsg ''call_2''
             (''Extracted Content:'' @ nl @ ''URL: https://a.example/x'' @ nl @ ''CONTENT: full text''),
           ToolMsg ''call_1'' ''Invalid JSON arguments.'']" for st
    by (auto simp: run_defs example_defs join.simps)
  from counted r(1) obtain st added where
    st: "chat_try ?env ''q'' [] (normalize_options (OptionsObject no_options)) = Inr st"
      "messages st = messages (initial_state ?env ''q'' [] (normalize_options (OptionsObject no_options))) @ added"
      "totalSearches r = web_search_calls ?env added"
    by blast
  from added [OF st(1)] st(2) have "added =
      [AssistantMsg (calls_msg [search_call, extract_call, broken_call]),
       ToolMsg ''call_1'' ''Title: A'',
       ToolMsg ''call_2''
         (''Extracted Content:'' @ nl @ ''URL: https://a.example/x'' @ nl @ ''CONTENT: full text''),
       ToolMsg ''call_1'' ''Invalid JSON arguments.'']"
    by simp
  with st(3) r(2) run show ?thesis by simp
qed

text \<open>
  Claim C10. \<open>chat\<close> with the boolean \<open>b\<close> as its options argument returns what it returns
  with the options object \<^verbatim>\<open>{ forceSearch: b }\<close>, in every environment.
\<close>

theorem legacy_boolean_is_forceSearch_option:
  "chat env message hist (LegacyForceSearch b) =
   chat env message hist
     (OptionsObject \<lparr>opt_forceSearch = Some b, opt_context = None, opt_isDeepResearch = None\<rparr>)"
  by (simp add: chat_def normalize_options_def)

text \<open>The theorem at a run that is forced to search first.\<close>

theorem legacy_boolean_example:
  "chat (example_env (Some ''key'') (calls_then_answer [search_call])) ''q'' []
     (LegacyForceSearch True)
   = chat (example_env (Some ''key'') (calls_then_answer [search_call])) ''q'' []
       (OptionsObject \<lparr>opt_forceSearch = Some True, opt_context = None, opt_isDeepResearch = None\<rparr>)
   \<and> (\<exists>r. chat (example_env (Some ''key'') (calls_then_answer [search_call])) ''q'' []
          (LegacyForceSearch True) = Inr r \<and> totalSteps r = 2 \<and> totalSearches r = 1)"
  using legacy_boolean_is_forceSearch_option
    [where env = "example_env (Some ''key'') (calls_then_answer [search_call])"
       and message = "''q''" and hist = "[]" and b = True]
  by (simp add: run_defs example_defs)

end
